theory Spec2Isabelle
  imports Main "HOL-Library.Sublist"
begin

section \<open>JavaScript values shared by the services\<close>

text \<open>
  Strings are sequences of code units; the model uses \<open>char\<close>, which is exact for
  code units below 256. A thrown value carries the properties the code inspects:
  \<open>status\<close> and \<open>message\<close> (read by the rewriter) and \<open>statusCode\<close> (set by
  \<open>AppError\<close>).
\<close>

datatype exn = Exn (status: "int option") (message: "string option") (statusCode: "int option")

definition Error :: "string \<Rightarrow> exn" where
  "Error msg = Exn None (Some msg) None"

definition AppError :: "string \<Rightarrow> int \<Rightarrow> exn" where
  "AppError msg code = Exn None (Some msg) (Some code)"

text \<open>\<open>s.includes(t)\<close> and \<open>s.startsWith(t)\<close>.\<close>

fun js_includes :: "string \<Rightarrow> string \<Rightarrow> bool" where
  "js_includes [] t = (t = [])"
| "js_includes (c # cs) t = (prefix t (c # cs) \<or> js_includes cs t)"

definition startsWith :: "string \<Rightarrow> string \<Rightarrow> bool" where
  "startsWith s t = prefix t s"

section \<open>The article store\<close>

datatype date = Date string

record article =
  aid :: nat
  title :: string
  content :: string
  author :: "string option"
  publishedDate :: "date option"
  originalUrl :: string
  isUpdated :: bool
  updatedContent :: "string option"
  references :: "string list"
  createdAt :: nat
  updatedAt :: nat

text \<open>
  Modelled from the spec: the Prisma schema and client are not part of the sources. The
  store is the table of articles in insertion order, with a store-managed identifier
  counter and a logical clock for the timestamps. \<open>create\<close> inserts unconditionally:
  no uniqueness constraint of the store itself is assumed.
\<close>

record db =
  rows :: "article list"
  nextId :: nat
  clock :: nat

record create_data =
  cd_title :: string
  cd_content :: string
  cd_author :: "string option"
  cd_publishedDate :: "date option"
  cd_originalUrl :: string

record update_data =
  ud_title :: "string option"
  ud_content :: "string option"
  ud_author :: "string option"
  ud_publishedDate :: "date option"
  ud_isUpdated :: "bool option"
  ud_updatedContent :: "string option"
  ud_references :: "string list option"

definition noData :: update_data where
  "noData = \<lparr>ud_title = None, ud_content = None, ud_author = None, ud_publishedDate = None,
     ud_isUpdated = None, ud_updatedContent = None, ud_references = None\<rparr>"

text \<open>Modelled from the spec: \<open>findUnique\<close> by id and by \<open>originalUrl\<close>, and
  \<open>findMany\<close> with the filter \<open>isUpdated = false\<close> and an optional \<open>take\<close>, in table
  order.\<close>

definition findUniqueById :: "db \<Rightarrow> nat \<Rightarrow> article option" where
  "findUniqueById d i = find (\<lambda>a. aid a = i) (rows d)"

definition findUniqueByUrl :: "db \<Rightarrow> string \<Rightarrow> article option" where
  "findUniqueByUrl d u = find (\<lambda>a. originalUrl a = u) (rows d)"

definition findManyNotUpdated :: "db \<Rightarrow> nat option \<Rightarrow> article list" where
  "findManyNotUpdated d tk =
     (let found = filter (\<lambda>a. \<not> isUpdated a) (rows d)
      in case tk of None \<Rightarrow> found | Some n \<Rightarrow> take n found)"

text \<open>Modelled from the spec: \<open>create\<close> gives the new article a fresh identifier, the
  defaults \<open>isUpdated = false\<close>, no \<open>updatedContent\<close>, no references, and both
  timestamps.\<close>

definition create :: "db \<Rightarrow> create_data \<Rightarrow> article \<times> db" where
  "create d c =
     (let a = \<lparr>aid = nextId d, title = cd_title c, content = cd_content c,
                author = cd_author c, publishedDate = cd_publishedDate c,
                originalUrl = cd_originalUrl c, isUpdated = False, updatedContent = None,
                references = [], createdAt = clock d, updatedAt = clock d\<rparr>
      in (a, d\<lparr>rows := rows d @ [a], nextId := Suc (nextId d), clock := Suc (clock d)\<rparr>))"

text \<open>Modelled from the spec: \<open>update\<close> writes the fields present in the data onto the
  record with the given id and refreshes \<open>updatedAt\<close>; it throws when there is no such
  record.\<close>

definition applyData :: "update_data \<Rightarrow> article \<Rightarrow> article" where
  "applyData u a =
     a\<lparr>title := (case ud_title u of None \<Rightarrow> title a | Some v \<Rightarrow> v),
       content := (case ud_content u of None \<Rightarrow> content a | Some v \<Rightarrow> v),
       author := (case ud_author u of None \<Rightarrow> author a | Some v \<Rightarrow> Some v),
       publishedDate := (case ud_publishedDate u of None \<Rightarrow> publishedDate a | Some v \<Rightarrow> Some v),
       isUpdated := (case ud_isUpdated u of None \<Rightarrow> isUpdated a | Some v \<Rightarrow> v),
       updatedContent := (case ud_updatedContent u of None \<Rightarrow> updatedContent a | Some v \<Rightarrow> Some v),
       references := (case ud_references u of None \<Rightarrow> references a | Some v \<Rightarrow> v)\<rparr>"

definition update :: "db \<Rightarrow> nat \<Rightarrow> update_data \<Rightarrow> exn + article \<times> db" where
  "update d i u =
     (case findUniqueById d i of
        None \<Rightarrow> Inl (Error ''Record to update not found.'')
      | Some a \<Rightarrow>
          (let a' = (applyData u a)\<lparr>updatedAt := clock d\<rparr>
           in Inr (a', d\<lparr>rows := map (\<lambda>r. if aid r = i then a' else r) (rows d),
                          clock := Suc (clock d)\<rparr>)))"

section \<open>Transient records of the pipeline\<close>

record search_result =
  sr_title :: string
  sr_url :: string
  sr_snippet :: string

record extracted_content =
  ec_title :: string
  ec_content :: string
  ec_url :: string

record rewrite_result =
  rw_updatedContent :: string
  rw_references :: "string list"

record scraped_article =
  sa_title :: string
  sa_content :: string
  sa_author :: "string option"
  sa_publishedDate :: "date option"
  sa_originalUrl :: string

section \<open>Article controller\<close>

text \<open>
  A handler either answers with a response or hands the thrown value to \<open>next\<close>
  (\<open>Inl\<close>); the store after the call is returned beside it. Message templates are kept
  as constructors carrying their numbers.
\<close>

datatype message =
  NoArticlesToScrape
| ScrapingCompleted nat
| NoArticlesNeedEnhancement
| EnhancementCompleted nat nat
| ArticleEnhanced

record response =
  http :: nat
  msg :: "message option"
  data_count :: "nat option"
  data_articles :: "article list"

record create_body =
  cb_title :: string
  cb_content :: string
  cb_author :: "string option"
  cb_publishedDate :: "string option"
  cb_originalUrl :: string

text \<open>\<open>createArticle\<close>: \<open>valid\<close> is \<open>validationResult(req).isEmpty()\<close>.\<close>

definition createArticle :: "db \<Rightarrow> bool \<Rightarrow> create_body \<Rightarrow> (exn + response) \<times> db" where
  "createArticle d valid b =
     (if \<not> valid then (Inl (AppError ''Validation failed'' 400), d)
      else case findUniqueByUrl d (cb_originalUrl b) of
        Some existing \<Rightarrow> (Inl (AppError ''Article with this URL already exists'' 409), d)
      | None \<Rightarrow>
          (let (a, d') = create d
                 \<lparr>cd_title = cb_title b, cd_content = cb_content b, cd_author = cb_author b,
                  cd_publishedDate =
                    (case cb_publishedDate b of None \<Rightarrow> None
                     | Some s \<Rightarrow> if s = [] then None else Some (Date s)),
                  cd_originalUrl = cb_originalUrl b\<rparr>
           in (Inr \<lparr>http = 201, msg = None, data_count = None, data_articles = [a]\<rparr>, d')))"

text \<open>
  \<open>updateArticle\<close>: a field of the body is written when it is truthy (a non-empty
  string, any array), \<open>isUpdated\<close> whenever it is not \<open>undefined\<close>.
\<close>

record update_body =
  ub_title :: "string option"
  ub_content :: "string option"
  ub_author :: "string option"
  ub_publishedDate :: "string option"
  ub_isUpdated :: "bool option"
  ub_updatedContent :: "string option"
  ub_references :: "string list option"

definition truthy :: "string option \<Rightarrow> string option" where
  "truthy v = (case v of None \<Rightarrow> None | Some s \<Rightarrow> if s = [] then None else Some s)"

definition updateArticle :: "db \<Rightarrow> nat \<Rightarrow> update_body \<Rightarrow> (exn + response) \<times> db" where
  "updateArticle d i b =
     (case findUniqueById d i of
        None \<Rightarrow> (Inl (AppError ''Article not found'' 404), d)
      | Some article \<Rightarrow>
          (case update d i
                  \<lparr>ud_title = truthy (ub_title b), ud_content = truthy (ub_content b),
                   ud_author = truthy (ub_author b),
                   ud_publishedDate = map_option Date (truthy (ub_publishedDate b)),
                   ud_isUpdated = ub_isUpdated b,
                   ud_updatedContent = truthy (ub_updatedContent b),
                   ud_references = ub_references b\<rparr> of
             Inl e \<Rightarrow> (Inl e, d)
           | Inr (updated, d') \<Rightarrow>
               (Inr \<lparr>http = 200, msg = None, data_count = None, data_articles = [updated]\<rparr>, d')))"

text \<open>
  \<open>scrapeArticles\<close>: \<open>scraped\<close> is the outcome of \<open>scrapeBeyondChatsArticles()\<close>; the
  loop saves each scraped article whose \<open>originalUrl\<close> is not in the store yet.
\<close>

fun persistScraped :: "scraped_article list \<Rightarrow> nat \<times> article list \<times> db \<Rightarrow> nat \<times> article list \<times> db" where
  "persistScraped [] st = st"
| "persistScraped (article # rest) (savedCount, savedArticles, d) =
     (case findUniqueByUrl d (sa_originalUrl article) of
        Some existing \<Rightarrow> persistScraped rest (savedCount, savedArticles, d)
      | None \<Rightarrow>
          (let (saved, d') = create d
                 \<lparr>cd_title = sa_title article, cd_content = sa_content article,
                  cd_author = sa_author article, cd_publishedDate = sa_publishedDate article,
                  cd_originalUrl = sa_originalUrl article\<rparr>
           in persistScraped rest (Suc savedCount, savedArticles @ [saved], d')))"

definition scrapeArticles :: "db \<Rightarrow> exn + scraped_article list \<Rightarrow> (exn + response) \<times> db" where
  "scrapeArticles d scraped =
     (case scraped of
        Inl e \<Rightarrow> (Inl e, d)
      | Inr articles \<Rightarrow>
          if length articles = 0
          then (Inr \<lparr>http = 200, msg = Some NoArticlesToScrape, data_count = Some 0,
                     data_articles = []\<rparr>, d)
          else (let (savedCount, savedArticles, d') = persistScraped articles (0, [], d)
                in (Inr \<lparr>http = 200, msg = Some (ScrapingCompleted savedCount),
                          data_count = Some savedCount, data_articles = savedArticles\<rparr>, d')))"

section \<open>Enhancement\<close>

text \<open>
  The three services the enhancement handlers import. Each call reaches outside the
  process (the search engine, the reference pages, the language model), so each takes the
  state of the world \<open>'w\<close> and returns the state after the call beside its result: two
  calls with the same arguments need not give the same result.
  \<open>extractMultipleArticles\<close> never throws; the other two return the thrown value as
  \<open>Inl\<close>.
\<close>

record 'w services =
  sv_searchGoogle :: "string \<Rightarrow> int \<Rightarrow> 'w \<Rightarrow> (exn + search_result list) \<times> 'w"
  sv_extractMultipleArticles :: "string list \<Rightarrow> 'w \<Rightarrow> extracted_content list \<times> 'w"
  sv_rewriteArticle ::
    "string \<Rightarrow> string \<Rightarrow> extracted_content list \<Rightarrow> 'w \<Rightarrow> (exn + rewrite_result) \<times> 'w"

text \<open>Steps 1 and 2 of the handlers: search, then extract when there are results.\<close>

definition gatherReferences ::
  "'w services \<Rightarrow> article \<Rightarrow> 'w \<Rightarrow> (exn + extracted_content list) \<times> 'w" where
  "gatherReferences sv a w =
     (case sv_searchGoogle sv (title a) 2 w of
        (Inl e, w1) \<Rightarrow> (Inl e, w1)
      | (Inr searchResults, w1) \<Rightarrow>
          if length searchResults > 0
          then (case sv_extractMultipleArticles sv (map sr_url searchResults) w1 of
                  (referenceArticles, w2) \<Rightarrow> (Inr referenceArticles, w2))
          else (Inr [], w1))"

definition enhancedData :: "rewrite_result \<Rightarrow> update_data" where
  "enhancedData r = noData\<lparr>ud_isUpdated := Some True,
     ud_updatedContent := Some (rw_updatedContent r), ud_references := Some (rw_references r)\<rparr>"

text \<open>The body of the \<open>try\<close> block for one article: steps 1 to 4.\<close>

definition enhanceOne :: "'w services \<Rightarrow> db \<Rightarrow> article \<Rightarrow> 'w \<Rightarrow> (exn + article \<times> db) \<times> 'w" where
  "enhanceOne sv d a w =
     (case gatherReferences sv a w of
        (Inl e, w2) \<Rightarrow> (Inl e, w2)
      | (Inr referenceArticles, w2) \<Rightarrow>
          (case sv_rewriteArticle sv (title a) (content a) referenceArticles w2 of
             (Inl e, w3) \<Rightarrow> (Inl e, w3)
           | (Inr r, w3) \<Rightarrow> (update d (aid a) (enhancedData r), w3)))"

record 'w batch =
  successCount :: nat
  failureCount :: nat
  enhancedArticles :: "article list"
  store :: db
  world :: 'w

fun enhanceLoop :: "'w services \<Rightarrow> article list \<Rightarrow> 'w batch \<Rightarrow> 'w batch" where
  "enhanceLoop sv [] st = st"
| "enhanceLoop sv (a # rest) st =
     enhanceLoop sv rest
       (case enhanceOne sv (store st) a (world st) of
          (Inr (updated, d'), w') \<Rightarrow>
            st\<lparr>successCount := Suc (successCount st),
               enhancedArticles := enhancedArticles st @ [updated], store := d', world := w'\<rparr>
        | (Inl e, w') \<Rightarrow> st\<lparr>failureCount := Suc (failureCount st), world := w'\<rparr>)"

definition enhanceBatch :: "'w services \<Rightarrow> db \<Rightarrow> 'w \<Rightarrow> 'w batch" where
  "enhanceBatch sv d w =
     enhanceLoop sv (findManyNotUpdated d (Some 5))
       \<lparr>successCount = 0, failureCount = 0, enhancedArticles = [], store = d, world = w\<rparr>"

definition enhanceArticles :: "'w services \<Rightarrow> db \<Rightarrow> 'w \<Rightarrow> (exn + response) \<times> db \<times> 'w" where
  "enhanceArticles sv d w =
     (if length (findManyNotUpdated d (Some 5)) = 0
      then (Inr \<lparr>http = 200, msg = Some NoArticlesNeedEnhancement, data_count = Some 0,
                 data_articles = []\<rparr>, d, w)
      else (let r = enhanceBatch sv d w
            in (Inr \<lparr>http = 200,
                      msg = Some (EnhancementCompleted (successCount r) (failureCount r)),
                      data_count = Some (successCount r),
                      data_articles = enhancedArticles r\<rparr>, store r, world r)))"

definition enhanceArticleById ::
  "'w services \<Rightarrow> db \<Rightarrow> nat \<Rightarrow> 'w \<Rightarrow> (exn + response) \<times> db \<times> 'w" where
  "enhanceArticleById sv d i w =
     (case findUniqueById d i of
        None \<Rightarrow> (Inl (AppError ''Article not found'' 404), d, w)
      | Some article \<Rightarrow>
          (case enhanceOne sv d article w of
             (Inl e, w') \<Rightarrow> (Inl e, d, w')
           | (Inr (updated, d'), w') \<Rightarrow>
               (Inr \<lparr>http = 200, msg = Some ArticleEnhanced, data_count = None,
                     data_articles = [updated]\<rparr>, d', w')))"

text \<open>
  The standalone update script: it takes every article not yet updated, counts an article
  with no search result or no extracted reference as a failure and goes on to the next.
  The result of one article is the thrown value, \<open>None\<close> for an article skipped, or the
  store after the update.
\<close>

definition updateOne :: "'w services \<Rightarrow> db \<Rightarrow> article \<Rightarrow> 'w \<Rightarrow> (exn + db option) \<times> 'w" where
  "updateOne sv d a w =
     (case sv_searchGoogle sv (title a) 2 w of
        (Inl e, w1) \<Rightarrow> (Inl e, w1)
      | (Inr searchResults, w1) \<Rightarrow>
          if length searchResults = 0 then (Inr None, w1)
          else (case sv_extractMultipleArticles sv (map sr_url searchResults) w1 of
                  (referenceArticles, w2) \<Rightarrow>
                    if length referenceArticles = 0 then (Inr None, w2)
                    else (case sv_rewriteArticle sv (title a) (content a) referenceArticles w2 of
                            (Inl e, w3) \<Rightarrow> (Inl e, w3)
                          | (Inr r, w3) \<Rightarrow>
                              (case update d (aid a) (enhancedData r) of
                                 Inl e \<Rightarrow> (Inl e, w3)
                               | Inr (updated, d') \<Rightarrow> (Inr (Some d'), w3)))))"

fun updateLoop ::
  "'w services \<Rightarrow> article list \<Rightarrow> nat \<times> nat \<times> db \<times> 'w \<Rightarrow> nat \<times> nat \<times> db \<times> 'w" where
  "updateLoop sv [] st = st"
| "updateLoop sv (a # rest) (successes, failures, d, w) =
     updateLoop sv rest
       (case updateOne sv d a w of
          (Inr (Some d'), w') \<Rightarrow> (Suc successes, failures, d', w')
        | (Inr None, w') \<Rightarrow> (successes, Suc failures, d, w')
        | (Inl e, w') \<Rightarrow> (successes, Suc failures, d, w'))"

definition updateArticlesMain :: "'w services \<Rightarrow> db \<Rightarrow> 'w \<Rightarrow> nat \<times> nat \<times> db \<times> 'w" where
  "updateArticlesMain sv d w = updateLoop sv (findManyNotUpdated d None) (0, 0, d, w)"

section \<open>Article rewriter\<close>

definition nl :: string where
  "nl = [CHR 0x0A]"

definition dq :: string where
  "dq = [CHR 0x22]"

text \<open>\<open>parts.join(sep)\<close>.\<close>

fun join :: "string \<Rightarrow> string list \<Rightarrow> string" where
  "join sep [] = []"
| "join sep [x] = x"
| "join sep (x # y # ys) = x @ sep @ join sep (y # ys)"

text \<open>The decimal digits of a number, as template literals print it.\<close>

function decimal :: "nat \<Rightarrow> string" where
  "decimal n = (if n < 10 then [char_of (48 + n)]
                else decimal (n div 10) @ [char_of (48 + n mod 10)])"
  by pat_completeness auto
termination
  by (relation "measure (\<lambda>n. n)") auto

declare decimal.simps [simp del]

fun referenceTexts :: "nat \<Rightarrow> extracted_content list \<Rightarrow> string list" where
  "referenceTexts index [] = []"
| "referenceTexts index (ref # refs) =
     (''Reference Article '' @ decimal (index + 1) @ '': '' @ ec_title ref @ nl
        @ ''URL: '' @ ec_url ref @ nl @ nl
        @ ''Content:'' @ nl @ take 2000 (ec_content ref) @ ''...'' @ nl)
     # referenceTexts (Suc index) refs"

definition buildPrompt :: "string \<Rightarrow> string \<Rightarrow> extracted_content list \<Rightarrow> string" where
  "buildPrompt originalTitle originalContent referenceArticles =
     (let referencesText = join (nl @ ''---'' @ nl @ nl) (referenceTexts 0 referenceArticles)
      in join nl
        [''You are an expert content writer and editor. Your task is to rewrite and improve the following article based on the style, formatting, and content approach of the reference articles provided.'',
         [],
         ''ORIGINAL ARTICLE:'',
         ''Title: '' @ originalTitle,
         ''Content:'',
         originalContent,
         [],
         ''---'',
         [],
         ''REFERENCE ARTICLES (Top-ranking articles on Google for this topic):'',
         referencesText,
         [],
         ''---'',
         [],
         ''INSTRUCTIONS:'',
         ''1. Analyze the formatting, structure, and writing style of the reference articles'',
         ''2. Rewrite the original article to match the quality and style of the reference articles'',
         ''3. Improve the content while maintaining the core message and facts'',
         ''4. Use similar heading structures, paragraph lengths, and formatting patterns'',
         ''5. Make the content more engaging and SEO-friendly'',
         ''6. Keep the rewritten content comprehensive and well-structured'',
         ''7. Do NOT include any meta-commentary or explanations - only output the rewritten article'',
         ''8. Do NOT add a '' @ dq @ ''References'' @ dq @ '' section at the end. The references will be displayed separately by the system.'',
         ''9. Ensure the content flows naturally and is not just a list of summaries.'',
         [],
         ''OUTPUT FORMAT:'',
         ''Return ONLY the rewritten article content in markdown format. DO NOT include a '' @ dq @ ''References'' @ dq @ '' section.''])"

definition systemMessage :: string where
  "systemMessage = ''You are an expert content writer who specializes in rewriting and improving articles to match the style and quality of top-ranking content.''"

text \<open>
  The environment of the rewriter. \<open>hasOpenAI\<close> and \<open>hasGemini\<close> are read from the
  process environment at each call; the two clients are created once, when the module is
  loaded, and are \<open>None\<close> when the key was absent then. The primary client maps the
  system and user messages to the content of the first choice (\<open>None\<close> when there is
  none); the secondary client maps the number of calls made before and the prompt to the
  generated text. Either may throw.
\<close>

record llm =
  hasOpenAI :: bool
  openai :: "(string \<Rightarrow> string \<Rightarrow> exn + string option) option"
  hasGemini :: bool
  genAI :: "(nat \<Rightarrow> string \<Rightarrow> exn + string) option"

definition maxAttempts :: nat where
  "maxAttempts = 5"

definition cooldown :: nat where
  "cooldown = 65000"

definition isRateLimit :: "exn \<Rightarrow> bool" where
  "isRateLimit error =
     (status error = Some 429 \<or>
      (case message error of None \<Rightarrow> False | Some m \<Rightarrow> js_includes m ''429''))"

text \<open>
  The retry loop of the secondary backend. The state is the counter \<open>attempts\<close>, the
  number of calls made and the milliseconds slept so far; the result is the thrown value or
  the text the loop leaves in \<open>updatedContent\<close> (still empty when the loop runs out).
\<close>

function geminiLoop ::
  "(nat \<Rightarrow> string \<Rightarrow> exn + string) \<Rightarrow> string \<Rightarrow> nat \<Rightarrow> nat \<Rightarrow> nat \<Rightarrow> (exn + string) \<times> nat \<times> nat" where
  "geminiLoop generateContent prompt attempts calls slept =
     (if attempts < maxAttempts
      then (case generateContent calls prompt of
              Inr text \<Rightarrow> (Inr text, Suc calls, slept)
            | Inl error \<Rightarrow>
                if isRateLimit error
                then geminiLoop generateContent prompt (Suc attempts) (Suc calls) (slept + cooldown)
                else (Inl error, Suc calls, slept))
      else (Inr [], calls, slept))"
  by pat_completeness auto
termination
  by (relation "measure (\<lambda>(g, p, attempts, c, s). maxAttempts - attempts)") auto

declare geminiLoop.simps [simp del]

definition generate :: "llm \<Rightarrow> string \<Rightarrow> (exn + string) \<times> nat \<times> nat" where
  "generate env prompt =
     (if hasOpenAI env \<and> openai env \<noteq> None
      then (case the (openai env) systemMessage prompt of
              Inl error \<Rightarrow> (Inl error, 1, 0)
            | Inr c \<Rightarrow> (Inr (case c of None \<Rightarrow> [] | Some text \<Rightarrow> text), 1, 0))
      else if hasGemini env \<and> genAI env \<noteq> None
      then (case geminiLoop (the (genAI env)) prompt 0 0 0 of
              (Inl error, calls, slept) \<Rightarrow> (Inl error, calls, slept)
            | (Inr generated, calls, slept) \<Rightarrow>
                if generated = []
                then (Inl (Error (''Failed to generate content after '' @ decimal maxAttempts
                         @ '' attempts due to rate limits.'')), calls, slept)
                else (Inr generated, calls, slept))
      else (Inr [], 0, 0))"

record rewrite_run =
  outcome :: "exn + rewrite_result"
  calls_made :: nat
  slept_ms :: nat

definition rewriteArticleRun :: "llm \<Rightarrow> string \<Rightarrow> string \<Rightarrow> extracted_content list \<Rightarrow> rewrite_run" where
  "rewriteArticleRun env originalTitle originalContent referenceArticles =
     (if \<not> hasOpenAI env \<and> \<not> hasGemini env
      then \<lparr>outcome = Inl (Error ''Neither OPENAI_API_KEY nor GEMINI_API_KEY is set in environment variables''),
            calls_made = 0, slept_ms = 0\<rparr>
      else (case generate env (buildPrompt originalTitle originalContent referenceArticles) of
              (Inl error, calls, slept) \<Rightarrow>
                \<lparr>outcome = Inl error, calls_made = calls, slept_ms = slept\<rparr>
            | (Inr generated, calls, slept) \<Rightarrow>
                if generated = []
                then \<lparr>outcome = Inl (Error ''LLM returned empty content''),
                      calls_made = calls, slept_ms = slept\<rparr>
                else \<lparr>outcome = Inr \<lparr>rw_updatedContent = generated,
                                     rw_references = map ec_url referenceArticles\<rparr>,
                      calls_made = calls, slept_ms = slept\<rparr>))"

definition rewriteArticle :: "llm \<Rightarrow> string \<Rightarrow> string \<Rightarrow> extracted_content list \<Rightarrow> exn + rewrite_result" where
  "rewriteArticle env originalTitle originalContent referenceArticles =
     outcome (rewriteArticleRun env originalTitle originalContent referenceArticles)"

section \<open>Search provider\<close>

text \<open>
  What \<open>page.evaluate\<close> reads from one result element (\<open>div.g\<close> or
  \<open>div[data-sokoban-container]\<close>): the \<open>href\<close> of its first \<open>a[href]\<close> descendant, the
  text of its first \<open>h3\<close> and the text of its snippet element, each \<open>None\<close> when the
  element has no such descendant.
\<close>

record result_element =
  re_link :: "string option"
  re_heading :: "string option"
  re_snippet :: "string option"

text \<open>
  What the browser session does for a search URL: the launch or page set-up throws; the
  navigation or the wait for the results container throws (the timeout); the evaluation
  throws; or the page is loaded, with its result elements in document order.
\<close>

datatype search_page =
  LaunchFails exn
| SelectorTimeout exn
| EvaluateFails exn
| Results "result_element list"

definition excludeDomains :: "string list" where
  "excludeDomains = [''youtube.com'', ''facebook.com'', ''twitter.com'', ''instagram.com'',
     ''linkedin.com/posts'']"

definition isExcluded :: "string \<Rightarrow> bool" where
  "isExcluded url = list_ex (\<lambda>domain. js_includes url domain) excludeDomains"

text \<open>The \<open>forEach\<close> over the result elements, pushing onto \<open>searchResults\<close>.\<close>

fun collectResults :: "result_element list \<Rightarrow> search_result list \<Rightarrow> search_result list" where
  "collectResults [] searchResults = searchResults"
| "collectResults (element # rest) searchResults =
     collectResults rest
       (case re_link element of
          None \<Rightarrow> searchResults
        | Some href \<Rightarrow>
            (case re_heading element of
               None \<Rightarrow> searchResults
             | Some titleText \<Rightarrow>
                 if startsWith href ''http''
                 then (if \<not> isExcluded href
                       then searchResults @
                              [\<lparr>sr_title = titleText, sr_url = href,
                                sr_snippet = (case re_snippet element of None \<Rightarrow> [] | Some t \<Rightarrow> t)\<rparr>]
                       else searchResults)
                 else searchResults))"

text \<open>\<open>xs.slice(0, end)\<close> for an integer \<open>end\<close>: a negative \<open>end\<close> counts from the end.\<close>

definition slice0 :: "'a list \<Rightarrow> int \<Rightarrow> 'a list" where
  "slice0 xs e = (if e < 0 then take (nat (int (length xs) + e)) xs else take (nat e) xs)"

text \<open>
  \<open>searchGoogle\<close>, given \<open>encodeURIComponent\<close> and the browser as a map from the search URL
  to what the session does.
\<close>

definition searchGoogle ::
  "(string \<Rightarrow> string) \<Rightarrow> (string \<Rightarrow> search_page) \<Rightarrow> string \<Rightarrow> int \<Rightarrow> exn + search_result list" where
  "searchGoogle encodeURIComponent browser query numResults =
     (let searchUrl = ''https://www.google.com/search?q='' @ encodeURIComponent query @ ''&gl=us&hl=en''
      in case browser searchUrl of
           LaunchFails e \<Rightarrow> Inl e
         | SelectorTimeout e \<Rightarrow> Inr []
         | EvaluateFails e \<Rightarrow> Inl e
         | Results resultElements \<Rightarrow> Inr (slice0 (collectResults resultElements []) numResults))"

text \<open>
  The filter in the spec's words: a result element is kept when it has an anchor link, a
  heading, and a URL that starts with \<open>http\<close> and contains no denylisted domain.
\<close>

definition kept :: "result_element \<Rightarrow> bool" where
  "kept el = (case re_link el of
                None \<Rightarrow> False
              | Some href \<Rightarrow> re_heading el \<noteq> None \<and> startsWith href ''http'' \<and> \<not> isExcluded href)"

definition toResult :: "result_element \<Rightarrow> search_result" where
  "toResult el =
     \<lparr>sr_title = (case re_heading el of None \<Rightarrow> [] | Some t \<Rightarrow> t),
      sr_url = (case re_link el of None \<Rightarrow> [] | Some href \<Rightarrow> href),
      sr_snippet = (case re_snippet el of None \<Rightarrow> [] | Some t \<Rightarrow> t)\<rparr>"

definition samplePage :: "result_element list" where
  "samplePage =
     [\<lparr>re_link = Some ''https://example.com/one'', re_heading = Some ''One'', re_snippet = None\<rparr>,
      \<lparr>re_link = Some ''https://www.youtube.com/watch?v=1'', re_heading = Some ''Video'', re_snippet = None\<rparr>,
      \<lparr>re_link = Some ''https://example.com/bare'', re_heading = None, re_snippet = None\<rparr>,
      \<lparr>re_link = None, re_heading = Some ''No link'', re_snippet = None\<rparr>,
      \<lparr>re_link = Some ''ftp://example.com/file'', re_heading = Some ''File'', re_snippet = None\<rparr>,
      \<lparr>re_link = Some ''http://example.org/two'', re_heading = Some ''Two'', re_snippet = Some ''second''\<rparr>,
      \<lparr>re_link = Some ''https://example.net/three'', re_heading = Some ''Three'', re_snippet = None\<rparr>]"

section \<open>Scrape orchestrator\<close>

text \<open>
  The blog index page, as the browser session gives it: a failure of the launch, the
  navigation or the wait, or the \<open>href\<close> attributes of the anchors that the link selector
  matches, in document order (\<open>None\<close> for an anchor without the attribute).
\<close>

datatype index_page =
  IndexFails exn
| IndexLoaded "string option list"

text \<open>
  The \<open>each\<close> over the matched anchors. \<open>resolve href base\<close> stands for
  \<open>new URL(href, base).href\<close>, which throws on an invalid URL. The test for a link already
  collected is made on \<open>href\<close> as written in the page; the link pushed is the absolute one.
\<close>

fun collectLinks ::
  "(string \<Rightarrow> string \<Rightarrow> exn + string) \<Rightarrow> string \<Rightarrow> string option list \<Rightarrow> string list \<Rightarrow> exn + string list" where
  "collectLinks resolve blogUrl [] articleLinks = Inr articleLinks"
| "collectLinks resolve blogUrl (None # rest) articleLinks =
     collectLinks resolve blogUrl rest articleLinks"
| "collectLinks resolve blogUrl (Some href # rest) articleLinks =
     (if href \<noteq> [] \<and> href \<notin> set articleLinks
      then (if startsWith href ''http''
            then collectLinks resolve blogUrl rest (articleLinks @ [href])
            else (case resolve href blogUrl of
                    Inl e \<Rightarrow> Inl e
                  | Inr absoluteUrl \<Rightarrow> collectLinks resolve blogUrl rest (articleLinks @ [absoluteUrl])))
      else collectLinks resolve blogUrl rest articleLinks)"

text \<open>\<open>xs.slice(-n)\<close> for a count \<open>n\<close>: the last \<open>n\<close> entries, all when there are fewer.\<close>

definition sliceLast :: "'a list \<Rightarrow> nat \<Rightarrow> 'a list" where
  "sliceLast xs n = drop (length xs - n) xs"

definition articlesToScrape ::
  "(string \<Rightarrow> string \<Rightarrow> exn + string) \<Rightarrow> string \<Rightarrow> string option list \<Rightarrow> exn + string list" where
  "articlesToScrape resolve blogUrl hrefs =
     (case collectLinks resolve blogUrl hrefs [] of
        Inl e \<Rightarrow> Inl e
      | Inr articleLinks \<Rightarrow> Inr (sliceLast articleLinks 5))"

text \<open>The loop over the selected URLs; \<open>scrapeArticleContent\<close> is the per-article
  scraper, whose failure or \<open>null\<close> drops the article.\<close>

fun scrapeEach :: "(string \<Rightarrow> exn + scraped_article option) \<Rightarrow> string list \<Rightarrow> scraped_article list" where
  "scrapeEach scrapeArticleContent [] = []"
| "scrapeEach scrapeArticleContent (url # rest) =
     (case scrapeArticleContent url of
        Inr (Some article) \<Rightarrow> [article]
      | Inr None \<Rightarrow> []
      | Inl e \<Rightarrow> []) @ scrapeEach scrapeArticleContent rest"

definition scrapeBeyondChatsArticles ::
  "string option \<Rightarrow> (string \<Rightarrow> index_page) \<Rightarrow> (string \<Rightarrow> string \<Rightarrow> exn + string) \<Rightarrow>
   (string \<Rightarrow> exn + scraped_article option) \<Rightarrow> exn + scraped_article list" where
  "scrapeBeyondChatsArticles envBlogUrl browser resolve scrapeArticleContent =
     (let blogUrl = (case truthy envBlogUrl of None \<Rightarrow> ''https://beyondchats.com/blogs/'' | Some u \<Rightarrow> u)
      in case browser blogUrl of
           IndexFails e \<Rightarrow> Inl e
         | IndexLoaded hrefs \<Rightarrow>
             (case articlesToScrape resolve blogUrl hrefs of
                Inl e \<Rightarrow> Inl e
              | Inr urls \<Rightarrow> Inr (scrapeEach scrapeArticleContent urls)))"

text \<open>A stand-in for \<open>new URL(href, base).href\<close> on root-relative paths of the blog's
  site, used in the samples only.\<close>

definition sampleResolve :: "string \<Rightarrow> string \<Rightarrow> exn + string" where
  "sampleResolve href base = Inr (''https://beyondchats.com'' @ href)"

section \<open>Parsed pages and selectors\<close>

text \<open>
  The document that \<open>cheerio.load\<close> builds, as a forest of nodes. An element has its tag
  name (lower case), its attributes in source order and its children.
\<close>

datatype node =
  Text string
| Comment string
| Element string "(string \<times> string) list" "node list"

type_synonym element_head = "string \<times> (string \<times> string) list"

text \<open>
  The selectors the services use: a simple selector tests the tag, a class, the id or an
  attribute value of one element, or two of these at once; a selector is a chain of simple selectors joined by the descendant
  combinator (the last one tests the element itself); a group is a comma-separated list.
\<close>

datatype simple =
  Tag string
| Class string
| Id string
| AttrEq string string
| Both simple simple

type_synonym selector = "simple list"

definition isHtmlSpace :: "char \<Rightarrow> bool" where
  "isHtmlSpace c = (c \<in> set [CHR 0x09, CHR 0x0A, CHR 0x0C, CHR 0x0D, CHR 0x20])"

text \<open>The class names of a \<open>class\<close> attribute: its value split at white space.\<close>

function classNames :: "string \<Rightarrow> string list" where
  "classNames s =
     (case dropWhile isHtmlSpace s of
        [] \<Rightarrow> []
      | c # cs \<Rightarrow> takeWhile (\<lambda>x. \<not> isHtmlSpace x) (c # cs)
                 # classNames (dropWhile (\<lambda>x. \<not> isHtmlSpace x) cs))"
  by pat_completeness auto
termination
proof (relation "measure length")
  show "wf (measure length)" by simp
next
  fix s :: string and c cs
  assume a: "dropWhile isHtmlSpace s = c # cs"
  have "length (dropWhile (\<lambda>x. \<not> isHtmlSpace x) cs) \<le> length cs"
    by (rule length_dropWhile_le)
  moreover have "length (c # cs) \<le> length s"
    using length_dropWhile_le[of isHtmlSpace s] a by simp
  ultimately show "(dropWhile (\<lambda>x. \<not> isHtmlSpace x) cs, s) \<in> measure length"
    by simp
qed

declare classNames.simps [simp del]

fun matchesSimple :: "simple \<Rightarrow> element_head \<Rightarrow> bool" where
  "matchesSimple (Tag t) (name, attrs) = (name = t)"
| "matchesSimple (Class c) (name, attrs) =
     (case map_of attrs ''class'' of None \<Rightarrow> False | Some v \<Rightarrow> c \<in> set (classNames v))"
| "matchesSimple (Id i) (name, attrs) = (map_of attrs ''id'' = Some i)"
| "matchesSimple (AttrEq k v) (name, attrs) = (map_of attrs k = Some v)"
| "matchesSimple (Both s1 s2) (name, attrs) =
     (matchesSimple s1 (name, attrs) \<and> matchesSimple s2 (name, attrs))"

text \<open>\<open>ancestors\<close> are the heads of the enclosing elements, nearest first.\<close>

fun ancestorsMatch :: "simple list \<Rightarrow> element_head list \<Rightarrow> bool" where
  "ancestorsMatch [] ancestors = True"
| "ancestorsMatch (s # ss) [] = False"
| "ancestorsMatch (s # ss) (a # ancestors) =
     ((matchesSimple s a \<and> ancestorsMatch ss ancestors) \<or> ancestorsMatch (s # ss) ancestors)"

definition matchesSelector :: "selector \<Rightarrow> element_head \<Rightarrow> element_head list \<Rightarrow> bool" where
  "matchesSelector sel el ancestors =
     (case rev sel of
        [] \<Rightarrow> False
      | s # ss \<Rightarrow> matchesSimple s el \<and> ancestorsMatch ss ancestors)"

definition matchesGroup :: "selector list \<Rightarrow> element_head \<Rightarrow> element_head list \<Rightarrow> bool" where
  "matchesGroup grp el ancestors = list_ex (\<lambda>sel. matchesSelector sel el ancestors) grp"

text \<open>\<open>$(group)\<close>: the elements that match, in document order.\<close>

fun selectNode :: "selector list \<Rightarrow> element_head list \<Rightarrow> node \<Rightarrow> node list"
  and selectNodes :: "selector list \<Rightarrow> element_head list \<Rightarrow> node list \<Rightarrow> node list" where
  "selectNode grp ancestors (Text t) = []"
| "selectNode grp ancestors (Comment t) = []"
| "selectNode grp ancestors (Element name attrs children) =
     (if matchesGroup grp (name, attrs) ancestors then [Element name attrs children] else [])
     @ selectNodes grp ((name, attrs) # ancestors) children"
| "selectNodes grp ancestors [] = []"
| "selectNodes grp ancestors (n # ns) = selectNode grp ancestors n @ selectNodes grp ancestors ns"

definition select :: "selector list \<Rightarrow> node list \<Rightarrow> node list" where
  "select grp doc = selectNodes grp [] doc"

text \<open>
  \<open>set.find(group)\<close>: the descendants of each element of the set that match, and
  \<open>set.find(group).remove()\<close>: each element of the set without those descendants. The
  set is a set of clones, so each element is the root of its own tree.
\<close>

definition findIn :: "selector list \<Rightarrow> node list \<Rightarrow> node list" where
  "findIn grp roots =
     concat (map (\<lambda>r. case r of
                        Element name attrs children \<Rightarrow> selectNodes grp [(name, attrs)] children
                      | Text t \<Rightarrow> []
                      | Comment t \<Rightarrow> []) roots)"

fun removeNodes :: "selector list \<Rightarrow> element_head list \<Rightarrow> node list \<Rightarrow> node list" where
  "removeNodes grp ancestors [] = []"
| "removeNodes grp ancestors (Text t # ns) = Text t # removeNodes grp ancestors ns"
| "removeNodes grp ancestors (Comment t # ns) = Comment t # removeNodes grp ancestors ns"
| "removeNodes grp ancestors (Element name attrs children # ns) =
     (if matchesGroup grp (name, attrs) ancestors then removeNodes grp ancestors ns
      else Element name attrs (removeNodes grp ((name, attrs) # ancestors) children)
           # removeNodes grp ancestors ns)"

definition removeFrom :: "selector list \<Rightarrow> node \<Rightarrow> node" where
  "removeFrom grp r =
     (case r of
        Element name attrs children \<Rightarrow> Element name attrs (removeNodes grp [(name, attrs)] children)
      | Text t \<Rightarrow> Text t
      | Comment t \<Rightarrow> Comment t)"

text \<open>\<open>.text()\<close> of a node and of a set, \<open>.attr(name)\<close> of a set.\<close>

fun textOf :: "node \<Rightarrow> string" where
  "textOf (Text t) = t"
| "textOf (Comment t) = []"
| "textOf (Element name attrs children) = concat (map textOf children)"

definition textOfSet :: "node list \<Rightarrow> string" where
  "textOfSet ns = concat (map textOf ns)"

definition attrOfSet :: "string \<Rightarrow> node list \<Rightarrow> string option" where
  "attrOfSet k ns =
     (case ns of
        Element name attrs children # rest \<Rightarrow> map_of attrs k
      | _ \<Rightarrow> None)"

section \<open>Content extractor\<close>

text \<open>White space of \<open>trim\<close> and of the pattern \<open>\s\<close>, among the code units below 256.\<close>

definition isJsSpace :: "char \<Rightarrow> bool" where
  "isJsSpace c = (c \<in> set [CHR 0x09, CHR 0x0A, CHR 0x0B, CHR 0x0C, CHR 0x0D, CHR 0x20, CHR 0xA0])"

definition trim :: "string \<Rightarrow> string" where
  "trim s = rev (dropWhile isJsSpace (rev (dropWhile isJsSpace s)))"

text \<open>\<open>.replace(/\s+/g, ' ')\<close>.\<close>

function collapseSpaces :: "string \<Rightarrow> string" where
  "collapseSpaces [] = []"
| "collapseSpaces (c # cs) =
     (if isJsSpace c then CHR '' '' # collapseSpaces (dropWhile isJsSpace cs)
      else c # collapseSpaces cs)"
  by pat_completeness auto
termination
  by (relation "measure length") (auto simp: length_dropWhile_le less_Suc_eq_le)

text \<open>\<open>.replace(/\n{3,}/g, '\n\n')\<close>.\<close>

function collapseNewlines :: "string \<Rightarrow> string" where
  "collapseNewlines [] = []"
| "collapseNewlines (c # cs) =
     (if c = CHR 0x0A
      then (let run = takeWhile (\<lambda>x. x = CHR 0x0A) cs
            in (if length run \<ge> 2 then [CHR 0x0A, CHR 0x0A] else c # run)
               @ collapseNewlines (dropWhile (\<lambda>x. x = CHR 0x0A) cs))
      else c # collapseNewlines cs)"
  by pat_completeness auto
termination
  by (relation "measure length") (auto simp: length_dropWhile_le less_Suc_eq_le)

text \<open>\<open>.replace(/[\u0000-\u001F\u007F-\u009F]/g, '')\<close>.\<close>

definition isControl :: "char \<Rightarrow> bool" where
  "isControl c = ((of_char c :: nat) \<le> 0x1F \<or> (0x7F \<le> (of_char c :: nat) \<and> (of_char c :: nat) \<le> 0x9F))"

definition cleanContent :: "string \<Rightarrow> string" where
  "cleanContent t = trim (filter (\<lambda>c. \<not> isControl c) (collapseNewlines (collapseSpaces t)))"

definition contentSelectors :: "selector list" where
  "contentSelectors =
     [[Tag ''article''],
      [Tag ''main'', Tag ''article''],
      [Class ''article-content''],
      [Class ''post-content''],
      [Class ''entry-content''],
      [Tag ''main''],
      [AttrEq ''role'' ''main''],
      [Class ''content''],
      [Id ''content'']]"

definition unwanted :: "selector list" where
  "unwanted =
     [[Tag ''script''], [Tag ''style''], [Tag ''nav''], [Tag ''footer''], [Tag ''aside''],
      [Tag ''header''], [Class ''comments''], [Class ''related''], [Class ''sidebar''],
      [Class ''advertisement''], [Class ''ads''], [Tag ''iframe''], [Tag ''button''],
      [Tag ''form'']]"

definition paragraphLike :: "selector list" where
  "paragraphLike =
     [[Tag ''p''], [Tag ''h1''], [Tag ''h2''], [Tag ''h3''], [Tag ''h4''], [Tag ''h5''],
      [Tag ''h6''], [Tag ''li'']]"

definition blankLine :: string where
  "blankLine = [CHR 0x0A, CHR 0x0A]"

text \<open>
  The body of the loop for one selector: \<open>None\<close> when nothing matches, else the joined
  text parts of the clone without its unwanted descendants.
\<close>

definition containerText :: "node list \<Rightarrow> selector \<Rightarrow> string option" where
  "containerText doc sel =
     (let element = select [sel] doc
      in if length element > 0
         then (let clone = map (removeFrom unwanted) element;
                   paragraphs = findIn paragraphLike clone;
                   textParts = filter (\<lambda>t. length t > 20) (map (\<lambda>el. trim (textOf el)) paragraphs)
               in Some (join blankLine textParts))
         else None)"

text \<open>The loop over the selectors, with the variable \<open>content\<close> and the \<open>break\<close>.\<close>

fun selectorLoop :: "node list \<Rightarrow> selector list \<Rightarrow> string \<Rightarrow> string" where
  "selectorLoop doc [] cur = cur"
| "selectorLoop doc (sel # rest) cur =
     (case containerText doc sel of
        None \<Rightarrow> selectorLoop doc rest cur
      | Some joined \<Rightarrow> if length joined > 200 then joined else selectorLoop doc rest joined)"

definition allParagraphs :: "node list \<Rightarrow> string" where
  "allParagraphs doc =
     join blankLine
       (filter (\<lambda>t. length t > 50) (map (\<lambda>el. trim (textOf el)) (select [[Tag ''p'']] doc)))"

definition bodyText :: "node list \<Rightarrow> string" where
  "bodyText doc =
     (let cur = selectorLoop doc contentSelectors []
      in if cur = [] \<or> length cur < 200 then allParagraphs doc else cur)"

text \<open>
  The outputs of the containers that match, in the priority order of their selectors; the
  statements about the selection refer to the first output longer than 200 characters and
  to the last output.
\<close>

definition containerOutputs :: "node list \<Rightarrow> string list" where
  "containerOutputs doc = List.map_filter (containerText doc) contentSelectors"

definition orElse :: "string \<Rightarrow> string \<Rightarrow> string" where
  "orElse a b = (if a = [] then b else a)"

definition titleOf :: "node list \<Rightarrow> string" where
  "titleOf doc =
     orElse (trim (textOfSet (take 1 (select [[Tag ''h1'']] doc))))
    (orElse (trim (textOfSet (take 1 (select [[Tag ''article'', Tag ''h1'']] doc))))
    (orElse (case attrOfSet ''content'' (select [[Both (Tag ''meta'') (AttrEq ''property'' ''og:title'')]] doc) of
               None \<Rightarrow> [] | Some v \<Rightarrow> v)
    (orElse (trim (textOfSet (select [[Tag ''title'']] doc)))
       ''Untitled'')))"

text \<open>
  What the browser session does for a URL: the launch, the navigation or the wait for
  \<open>body\<close> throws, or the page is loaded and parsed.
\<close>

datatype page =
  PageFails exn
| PageLoaded "node list"

definition extractArticleContent :: "(string \<Rightarrow> page) \<Rightarrow> string \<Rightarrow> extracted_content option" where
  "extractArticleContent browser url =
     (case browser url of
        PageFails e \<Rightarrow> None
      | PageLoaded doc \<Rightarrow>
          (let cleaned = cleanContent (bodyText doc)
           in if cleaned = [] \<or> length cleaned < 100 then None
              else Some \<lparr>ec_title = titleOf doc, ec_content = cleaned, ec_url = url\<rparr>))"

fun extractMultipleArticles :: "(string \<Rightarrow> page) \<Rightarrow> string list \<Rightarrow> extracted_content list" where
  "extractMultipleArticles browser [] = []"
| "extractMultipleArticles browser (url # urls) =
     (case extractArticleContent browser url of
        None \<Rightarrow> []
      | Some extracted \<Rightarrow> [extracted]) @ extractMultipleArticles browser urls"

section \<open>The services put together\<close>

text \<open>
  The three services over the models of this theory. The world determines, for the call
  being made, what the search browser, the page browser and the rewriter's environment
  do; \<open>after\<close> gives the world once the call is over.
\<close>

record 'w outside =
  searchBrowserOf :: "'w \<Rightarrow> string \<Rightarrow> search_page"
  pageBrowserOf :: "'w \<Rightarrow> string \<Rightarrow> page"
  envOf :: "'w \<Rightarrow> llm"
  after :: "'w \<Rightarrow> 'w"

definition rewriterIn ::
  "'w outside \<Rightarrow> string \<Rightarrow> string \<Rightarrow> extracted_content list \<Rightarrow> 'w \<Rightarrow> (exn + rewrite_result) \<times> 'w" where
  "rewriterIn out t c refs w = (rewriteArticle (envOf out w) t c refs, after out w)"

definition pipelineServices :: "(string \<Rightarrow> string) \<Rightarrow> 'w outside \<Rightarrow> 'w services" where
  "pipelineServices encodeURIComponent out =
     \<lparr>sv_searchGoogle =
        (\<lambda>query numResults w.
           (searchGoogle encodeURIComponent (searchBrowserOf out w) query numResults, after out w)),
      sv_extractMultipleArticles =
        (\<lambda>urls w. (extractMultipleArticles (pageBrowserOf out w) urls, after out w)),
      sv_rewriteArticle = rewriterIn out\<rparr>"

section \<open>Outcome of the steps before the store update\<close>

text \<open>
  Steps 1 to 3 of \<open>enhanceOne\<close> (search, extract, rewrite) do not read the store; their
  outcome for an article, in the world in which its turn starts, is named, so that
  statements can refer to an article whose rewrite throws. \<open>turns\<close> pairs each article
  of a batch with the world in which its turn starts.
\<close>

definition prepare :: "'w services \<Rightarrow> article \<Rightarrow> 'w \<Rightarrow> (exn + rewrite_result) \<times> 'w" where
  "prepare sv a w =
     (case gatherReferences sv a w of
        (Inl e, w2) \<Rightarrow> (Inl e, w2)
      | (Inr referenceArticles, w2) \<Rightarrow>
          sv_rewriteArticle sv (title a) (content a) referenceArticles w2)"

fun turns :: "'w services \<Rightarrow> article list \<Rightarrow> 'w \<Rightarrow> (article \<times> 'w) list" where
  "turns sv [] w = []"
| "turns sv (a # rest) w = (a, w) # turns sv rest (snd (prepare sv a w))"

definition succeeds :: "'w services \<Rightarrow> article \<times> 'w \<Rightarrow> bool" where
  "succeeds sv t = (case t of (a, w) \<Rightarrow> \<not> isl (fst (prepare sv a w)))"

definition fails :: "'w services \<Rightarrow> article \<times> 'w \<Rightarrow> bool" where
  "fails sv t = (case t of (a, w) \<Rightarrow> isl (fst (prepare sv a w)))"

section \<open>Routing and backends for statements about the rewriter\<close>

text \<open>
  A call is routed to the secondary backend \<open>g\<close> when the primary branch is not taken
  and the secondary key and client are present. \<open>rateLimitedFirst g p k\<close> says that the
  first \<open>k\<close> calls of \<open>g\<close> on the prompt \<open>p\<close> throw a rate-limit error.
\<close>

definition routedToSecondary :: "llm \<Rightarrow> (nat \<Rightarrow> string \<Rightarrow> exn + string) \<Rightarrow> bool" where
  "routedToSecondary env g =
     (\<not> (hasOpenAI env \<and> openai env \<noteq> None) \<and> hasGemini env \<and> genAI env = Some g)"

fun rateLimitedFirst :: "(nat \<Rightarrow> string \<Rightarrow> exn + string) \<Rightarrow> string \<Rightarrow> nat \<Rightarrow> bool" where
  "rateLimitedFirst g p 0 = True"
| "rateLimitedFirst g p (Suc k) =
     (rateLimitedFirst g p k \<and> (case g k p of Inl e \<Rightarrow> isRateLimit e | Inr t \<Rightarrow> False))"

definition secondaryOnly :: "(nat \<Rightarrow> string \<Rightarrow> exn + string) \<Rightarrow> llm" where
  "secondaryOnly g = \<lparr>hasOpenAI = False, openai = None, hasGemini = True, genAI = Some g\<rparr>"

definition primaryOnly :: "(string \<Rightarrow> string \<Rightarrow> exn + string option) \<Rightarrow> llm" where
  "primaryOnly f = \<lparr>hasOpenAI = True, openai = Some f, hasGemini = False, genAI = None\<rparr>"

text \<open>The primary key is set when the call is made, but was absent when the module was
  loaded, and there is no secondary key: neither branch is taken.\<close>

definition lateKey :: llm where
  "lateKey = \<lparr>hasOpenAI = True, openai = None, hasGemini = False, genAI = None\<rparr>"

definition noKeys :: llm where
  "noKeys = \<lparr>hasOpenAI = False, openai = None, hasGemini = False, genAI = None\<rparr>"

definition rateLimitError :: exn where
  "rateLimitError = Exn (Some 429) (Some ''Too Many Requests'') None"

text \<open>A backend that is rate-limited on its first \<open>n\<close> calls and returns \<open>t\<close> after.\<close>

definition limitedThen :: "nat \<Rightarrow> string \<Rightarrow> nat \<Rightarrow> string \<Rightarrow> exn + string" where
  "limitedThen n t = (\<lambda>calls prompt. if calls < n then Inl rateLimitError else Inr t)"

definition alwaysLimited :: "nat \<Rightarrow> string \<Rightarrow> exn + string" where
  "alwaysLimited = (\<lambda>calls prompt. Inl rateLimitError)"

definition alwaysFails :: "nat \<Rightarrow> string \<Rightarrow> exn + string" where
  "alwaysFails = (\<lambda>calls prompt. Inl (Error ''fetch failed''))"

section \<open>Relating a record before and after an enhancement run\<close>

text \<open>
  \<open>enhancedBy Q r r'\<close>: the stored record \<open>r'\<close> is the record \<open>r\<close> untouched, or it
  is the same article marked as updated with an \<open>updatedContent\<close> that is set and
  satisfies \<open>Q\<close>.
\<close>

definition enhancedBy :: "(string \<Rightarrow> bool) \<Rightarrow> article \<Rightarrow> article \<Rightarrow> bool" where
  "enhancedBy Q r r' =
     (r' = r \<or> (aid r' = aid r \<and> isUpdated r' \<and>
        (case updatedContent r' of None \<Rightarrow> False | Some c \<Rightarrow> Q c)))"

definition nonEmpty :: "string \<Rightarrow> bool" where
  "nonEmpty c = (c \<noteq> [])"

section \<open>Sample data\<close>

definition sampleArticle :: "nat \<Rightarrow> string \<Rightarrow> bool \<Rightarrow> article" where
  "sampleArticle i t upd =
     \<lparr>aid = i, title = t, content = ''Original text of '' @ t, author = None,
      publishedDate = None, originalUrl = ''https://beyondchats.com/blogs/'' @ t,
      isUpdated = upd, updatedContent = (if upd then Some (''Enhanced '' @ t) else None),
      references = [], createdAt = i, updatedAt = i\<rparr>"

definition sampleDb :: db where
  "sampleDb = \<lparr>rows = [sampleArticle 1 ''a'' False, sampleArticle 2 ''b'' False,
                        sampleArticle 3 ''c'' False, sampleArticle 4 ''d'' False,
                        sampleArticle 5 ''e'' False, sampleArticle 6 ''f'' True,
                        sampleArticle 7 ''g'' False],
               nextId = 8, clock = 8\<rparr>"

text \<open>Services for the samples, over a world that counts the rewrite calls made: no
  search result for any title; the third rewrite call throws and every other returns.\<close>

definition sampleServices :: "nat services" where
  "sampleServices =
     \<lparr>sv_searchGoogle = (\<lambda>query numResults w. (Inr [], w)),
      sv_extractMultipleArticles = (\<lambda>urls w. ([], w)),
      sv_rewriteArticle = (\<lambda>t c refs w.
         (if w = 2 then Inl (Error ''backend unavailable'')
          else Inr \<lparr>rw_updatedContent = ''Enhanced '' @ t, rw_references = map ec_url refs\<rparr>,
          Suc w))\<rparr>"

text \<open>The world outside for the samples with the modelled rewriter: the same environment
  at every call.\<close>

definition constantOutside :: "llm \<Rightarrow> nat outside" where
  "constantOutside env =
     \<lparr>searchBrowserOf = (\<lambda>w url. SelectorTimeout (Error ''Waiting for selector failed'')),
      pageBrowserOf = (\<lambda>w url. PageFails (Error ''Navigation timeout'')),
      envOf = (\<lambda>w. env),
      after = Suc\<rparr>"

definition sampleScraped :: "string \<Rightarrow> scraped_article" where
  "sampleScraped t = \<lparr>sa_title = t, sa_content = ''Scraped text of '' @ t, sa_author = None,
     sa_publishedDate = None, sa_originalUrl = ''https://beyondchats.com/blogs/'' @ t\<rparr>"

definition sampleBody :: "string \<Rightarrow> create_body" where
  "sampleBody t = \<lparr>cb_title = t, cb_content = ''Posted text of '' @ t, cb_author = None,
     cb_publishedDate = None, cb_originalUrl = ''https://beyondchats.com/blogs/'' @ t\<rparr>"

text \<open>A request body for \<open>PUT /articles/:id\<close> that carries only \<open>isUpdated: false\<close>.\<close>

definition resetRequest :: update_body where
  "resetRequest = \<lparr>ub_title = None, ub_content = None, ub_author = None,
     ub_publishedDate = None, ub_isUpdated = Some False, ub_updatedContent = None,
     ub_references = None\<rparr>"

text \<open>Sample pages: a lone paragraph of \<open>n\<close> letters with \<open>k\<close> spaces in the middle, and a
  page whose only container yields exactly 200 characters beside a paragraph of 60.\<close>

definition paragraphPage :: "nat \<Rightarrow> nat \<Rightarrow> nat \<Rightarrow> node list" where
  "paragraphPage n k m =
     [Element ''html'' []
        [Element ''head'' [] [Element ''title'' [] [Text ''Sample'']],
         Element ''body'' []
           [Element ''p'' []
              [Text (replicate n CHR ''x'' @ replicate k CHR '' '' @ replicate m CHR ''y'')]]]]"

definition exactly200Page :: "node list" where
  "exactly200Page =
     [Element ''html'' []
        [Element ''body'' []
           [Element ''article'' [] [Element ''h2'' [] [Text (replicate 200 CHR ''a'')]],
            Element ''p'' [] [Text (replicate 60 CHR ''b'')]]]]"

text \<open>A page with one article: a navigation list and a short paragraph that are left out,
  and three paragraphs that are kept.\<close>

definition articlePage :: "node list" where
  "articlePage =
     [Element ''html'' []
        [Element ''head'' []
           [Element ''meta'' [(''property'', ''og:title''), (''content'', ''From meta'')] []],
         Element ''body'' []
           [Element ''div'' [(''class'', ''wrap content'')]
              [Element ''article'' []
                 [Element ''nav'' [] [Element ''li'' [] [Text (replicate 30 CHR ''n'')]],
                  Element ''h1'' [] [Text ''  A heading of the article  ''],
                  Element ''p'' [] [Text ''too short''],
                  Element ''p'' [] [Text (replicate 90 CHR ''a'')],
                  Element ''div'' [(''class'', ''box sidebar'')]
                    [Element ''p'' [] [Text (replicate 40 CHR ''s'')]],
                  Element ''p'' [] [Text (replicate 90 CHR ''b''), Element ''b'' [] [Text ''!'']],
                  Element ''ul'' [] [Element ''li'' [] [Text (replicate 25 CHR ''c'')]]]]]]]"

section \<open>String tests\<close>

lemma js_includes_sublist: "js_includes s t \<longleftrightarrow> sublist t s"
  by (induction s) (auto simp: sublist_Cons_right)

section \<open>The store keeps one record per source URL\<close>

lemma findUniqueByUrl_None: "findUniqueByUrl d u = None \<longleftrightarrow> u \<notin> originalUrl ` set (rows d)"
  by (auto simp: findUniqueByUrl_def find_None_iff)

lemma create_rows:
  "rows (snd (create d c)) = rows d @ [fst (create d c)]"
  "originalUrl (fst (create d c)) = cd_originalUrl c"
  "aid (fst (create d c)) = nextId d"
  "nextId (snd (create d c)) = Suc (nextId d)"
  by (simp_all add: create_def Let_def)

lemma persistScraped_rows:
  "\<exists>new. rows (snd (snd (persistScraped as (n, sv, d)))) = rows d @ new
      \<and> (distinct (map originalUrl (rows d)) \<longrightarrow> distinct (map originalUrl (rows d @ new)))"
proof (induction as arbitrary: n sv d)
  case Nil
  then show ?case by simp
next
  case (Cons a as)
  show ?case
  proof (cases "findUniqueByUrl d (sa_originalUrl a)")
    case (Some e)
    then show ?thesis using Cons.IH[of n sv d] by simp
  next
    case None
    let ?c = "\<lparr>cd_title = sa_title a, cd_content = sa_content a,
                  cd_author = sa_author a, cd_publishedDate = sa_publishedDate a,
                  cd_originalUrl = sa_originalUrl a\<rparr>"
    obtain new where new: "rows (snd (snd (persistScraped as (Suc n, sv @ [fst (create d ?c)], snd (create d ?c))))) = rows (snd (create d ?c)) @ new"
      "distinct (map originalUrl (rows (snd (create d ?c)))) \<longrightarrow> distinct (map originalUrl (rows (snd (create d ?c)) @ new))"
      using Cons.IH[of "Suc n" "sv @ [fst (create d ?c)]" "snd (create d ?c)"] by blast
    have d1: "distinct (map originalUrl (rows d)) \<Longrightarrow> distinct (map originalUrl (rows (snd (create d ?c))))"
      using None by (simp add: create_rows findUniqueByUrl_None)
    have step: "persistScraped (a # as) (n, sv, d) = persistScraped as (Suc n, sv @ [fst (create d ?c)], snd (create d ?c))"
      using None by (simp add: case_prod_beta)
    show ?thesis
      unfolding step
      apply (rule exI[of _ "fst (create d ?c) # new"])
      using new d1 by (simp add: create_rows)
  qed
qed


lemma persistScraped_distinct:
  "distinct (map originalUrl (rows d)) \<Longrightarrow>
   distinct (map originalUrl (rows (snd (snd (persistScraped as (n, sv, d))))))"
  using persistScraped_rows[of as n sv d] by auto

lemma persistScraped_keeps:
  "u \<in> originalUrl ` set (rows d) \<Longrightarrow> distinct (map originalUrl (rows d)) \<Longrightarrow>
   filter (\<lambda>a. originalUrl a = u) (rows (snd (snd (persistScraped as (n, sv, d)))))
     = filter (\<lambda>a. originalUrl a = u) (rows d)"
proof -
  assume u: "u \<in> originalUrl ` set (rows d)" and dd: "distinct (map originalUrl (rows d))"
  obtain new where new: "rows (snd (snd (persistScraped as (n, sv, d)))) = rows d @ new"
     "distinct (map originalUrl (rows d @ new))"
    using persistScraped_rows[of as n sv d] dd by blast
  have "filter (\<lambda>a. originalUrl a = u) new = []"
    using new(2) u by (auto simp: filter_empty_conv)
  then show ?thesis using new(1) by simp
qed

text \<open>
  C9. Creation keeps \<open>originalUrl\<close> unique: when no two stored articles share a URL,
  none do after \<open>createArticle\<close> or after \<open>scrapeArticles\<close>; \<open>createArticle\<close>
  answers a valid request for a stored URL with the 409 error and leaves the store as it
  was; \<open>scrapeArticles\<close> answers 200 and leaves the records of every stored URL as
  they were.
\<close>

theorem originalUrl_unique:
  assumes "distinct (map originalUrl (rows d))"
  shows "distinct (map originalUrl (rows (snd (createArticle d valid b))))
       \<and> distinct (map originalUrl (rows (snd (scrapeArticles d scraped))))
       \<and> (valid \<and> cb_originalUrl b \<in> originalUrl ` set (rows d) \<longrightarrow>
            createArticle d valid b = (Inl (AppError ''Article with this URL already exists'' 409), d))
       \<and> (\<forall>articles. scraped = Inr articles \<longrightarrow>
            (\<exists>r. fst (scrapeArticles d scraped) = Inr r \<and> http r = 200) \<and>
            (\<forall>u \<in> originalUrl ` set (rows d).
               filter (\<lambda>a. originalUrl a = u) (rows (snd (scrapeArticles d scraped)))
                 = filter (\<lambda>a. originalUrl a = u) (rows d)))"
proof (intro conjI allI impI)
  show "distinct (map originalUrl (rows (snd (createArticle d valid b))))"
    using assms
    by (auto simp: createArticle_def create_rows findUniqueByUrl_None case_prod_beta Let_def
             split: option.splits)
  show "distinct (map originalUrl (rows (snd (scrapeArticles d scraped))))"
    using assms persistScraped_distinct[of d _ 0 "[]"]
    by (auto simp: scrapeArticles_def case_prod_beta split: sum.splits)
  show "createArticle d valid b = (Inl (AppError ''Article with this URL already exists'' 409), d)"
    if "valid \<and> cb_originalUrl b \<in> originalUrl ` set (rows d)"
    using that findUniqueByUrl_None[of d "cb_originalUrl b"]
    by (auto simp: createArticle_def split: option.splits)
  show "\<exists>r. fst (scrapeArticles d scraped) = Inr r \<and> http r = 200" if "scraped = Inr articles" for articles
    using that by (simp add: scrapeArticles_def case_prod_beta)
  show "\<forall>u \<in> originalUrl ` set (rows d).
               filter (\<lambda>a. originalUrl a = u) (rows (snd (scrapeArticles d scraped)))
                 = filter (\<lambda>a. originalUrl a = u) (rows d)" if "scraped = Inr articles" for articles
    using that assms persistScraped_keeps[of _ d _ 0 "[]"]
    by (auto simp: scrapeArticles_def case_prod_beta)
qed

theorem originalUrl_unique_witness:
  "distinct (map originalUrl (rows sampleDb))
   \<and> createArticle sampleDb True (sampleBody ''a'')
       = (Inl (AppError ''Article with this URL already exists'' 409), sampleDb)
   \<and> map originalUrl (rows (snd (scrapeArticles sampleDb
         (Inr [sampleScraped ''a'', sampleScraped ''x'', sampleScraped ''x'']))))
       = map originalUrl (rows sampleDb) @ [''https://beyondchats.com/blogs/x'']"
proof -
  have h: "distinct (map originalUrl (rows sampleDb))"
    by (simp add: sampleDb_def sampleArticle_def)
  have u: "cb_originalUrl (sampleBody ''a'') \<in> originalUrl ` set (rows sampleDb)"
    by (simp add: sampleDb_def sampleArticle_def sampleBody_def)
  have s: "map originalUrl (rows (snd (scrapeArticles sampleDb
         (Inr [sampleScraped ''a'', sampleScraped ''x'', sampleScraped ''x'']))))
       = map originalUrl (rows sampleDb) @ [''https://beyondchats.com/blogs/x'']"
    by (simp add: scrapeArticles_def sampleDb_def sampleArticle_def sampleScraped_def
          findUniqueByUrl_def create_def Let_def)
  from originalUrl_unique[OF h, of True "sampleBody ''a''" "Inr []"] u h s
  show ?thesis by simp
qed

section \<open>Batch enhancement isolates failures\<close>

lemma enhanceOne_prepare:
  "enhanceOne sv d a w =
     (case prepare sv a w of
        (Inl e, w') \<Rightarrow> (Inl e, w')
      | (Inr r, w') \<Rightarrow> (update d (aid a) (enhancedData r), w'))"
  by (simp add: enhanceOne_def prepare_def split: prod.splits sum.splits)

lemma findUniqueById_SomeD: "findUniqueById d i = Some a \<Longrightarrow> a \<in> set (rows d) \<and> aid a = i"
  by (auto simp: findUniqueById_def find_Some_iff)

lemma findUniqueById_None: "findUniqueById d i = None \<longleftrightarrow> i \<notin> aid ` set (rows d)"
  by (auto simp: findUniqueById_def find_None_iff)

lemma find_distinct_mem:
  "distinct (map f xs) \<Longrightarrow> a \<in> set xs \<Longrightarrow> find (\<lambda>x. f x = f a) xs = Some a"
  by (induction xs) auto

lemma findUniqueById_mem:
  "distinct (map aid (rows d)) \<Longrightarrow> a \<in> set (rows d) \<Longrightarrow> findUniqueById d (aid a) = Some a"
  by (simp add: findUniqueById_def find_distinct_mem)

lemma aid_applyData [simp]: "aid (applyData u a) = aid a"
  by (simp add: applyData_def)

lemma find_replace:
  "aid u = i \<Longrightarrow>
   find (\<lambda>a. aid a = j) (map (\<lambda>r. if aid r = i then u else r) xs) =
     (if j = i then (if i \<in> aid ` set xs then Some u else None) else find (\<lambda>a. aid a = j) xs)"
  by (induction xs) auto

lemma update_cases:
  "(i \<notin> aid ` set (rows d) \<and> update d i dat = Inl (Error ''Record to update not found.'')) \<or>
   (\<exists>a. findUniqueById d i = Some a \<and>
      update d i dat = Inr ((applyData dat a)\<lparr>updatedAt := clock d\<rparr>,
         d\<lparr>rows := map (\<lambda>r. if aid r = i then (applyData dat a)\<lparr>updatedAt := clock d\<rparr> else r) (rows d),
           clock := Suc (clock d)\<rparr>))"
proof (cases "findUniqueById d i")
  case None
  then have "update d i dat = Inl (Error ''Record to update not found.'')"
    by (simp add: update_def)
  with None show ?thesis by (simp add: findUniqueById_None)
next
  case (Some a)
  then show ?thesis by (simp add: update_def Let_def)
qed

lemma update_rows:
  assumes "update d i dat = Inr (u, d')"
  shows "aid u = i" and "i \<in> aid ` set (rows d)"
    and "rows d' = map (\<lambda>r. if aid r = i then u else r) (rows d)"
    and "\<exists>a. findUniqueById d i = Some a \<and> u = (applyData dat a)\<lparr>updatedAt := clock d\<rparr>"
  using update_cases[of i d dat] assms
  by (auto dest: findUniqueById_SomeD)

lemma update_ids: "update d i dat = Inr (u, d') \<Longrightarrow> map aid (rows d') = map aid (rows d)"
  by (frule update_rows(1), frule update_rows(3)) (simp add: comp_def cong: map_cong)

lemma update_other:
  "update d i dat = Inr (u, d') \<Longrightarrow> j \<noteq> i \<Longrightarrow> findUniqueById d' j = findUniqueById d j"
  by (frule update_rows(1), frule update_rows(3)) (simp add: findUniqueById_def find_replace)

lemma update_self:
  "update d i dat = Inr (u, d') \<Longrightarrow> findUniqueById d' i = Some u \<and> aid u = i"
  by (frule update_rows(1), frule update_rows(2), frule update_rows(3))
     (simp add: findUniqueById_def find_replace)

lemma update_enhanced:
  "update d i (enhancedData r) = Inr (u, d') \<Longrightarrow>
     isUpdated u \<and> updatedContent u = Some (rw_updatedContent r) \<and> references u = rw_references r"
  by (drule update_rows(4)) (auto simp: enhancedData_def noData_def applyData_def)

lemma update_present:
  "i \<in> aid ` set (rows d) \<Longrightarrow> \<exists>u d'. update d i dat = Inr (u, d')"
  using update_cases[of i d dat] by auto

lemma turns_articles: "map fst (turns sv as w) = as"
  by (induction as arbitrary: w) simp_all

lemma turns_counts:
  "length (filter (succeeds sv) ts) + length (filter (fails sv) ts) = length ts"
proof -
  have "fails sv = (\<lambda>t. \<not> succeeds sv t)"
    by (auto simp: fails_def succeeds_def)
  then show ?thesis using sum_length_filter_compl[of "succeeds sv" ts] by simp
qed

lemma enhanceLoop_Cons_fail:
  "prepare sv a (world st) = (Inl e, w') \<Longrightarrow>
   enhanceLoop sv (a # rest) st =
     enhanceLoop sv rest (st\<lparr>failureCount := Suc (failureCount st), world := w'\<rparr>)"
  by (simp add: enhanceOne_prepare)

lemma enhanceLoop_Cons_ok:
  "prepare sv a (world st) = (Inr r, w') \<Longrightarrow>
   update (store st) (aid a) (enhancedData r) = Inr (u, d') \<Longrightarrow>
   enhanceLoop sv (a # rest) st =
     enhanceLoop sv rest (st\<lparr>successCount := Suc (successCount st),
        enhancedArticles := enhancedArticles st @ [u], store := d', world := w'\<rparr>)"
  by (simp add: enhanceOne_prepare)

lemma enhanceLoop_inv:
  "aid ` set as \<subseteq> aid ` set (rows (store st)) \<Longrightarrow> distinct (map aid as) \<Longrightarrow>
   successCount (enhanceLoop sv as st)
     = successCount st + length (filter (succeeds sv) (turns sv as (world st))) \<and>
   failureCount (enhanceLoop sv as st)
     = failureCount st + length (filter (fails sv) (turns sv as (world st))) \<and>
   length (enhancedArticles (enhanceLoop sv as st))
     = length (enhancedArticles st) + length (filter (succeeds sv) (turns sv as (world st))) \<and>
   set (enhancedArticles st) \<subseteq> set (enhancedArticles (enhanceLoop sv as st)) \<and>
   map aid (rows (store (enhanceLoop sv as st))) = map aid (rows (store st)) \<and>
   (\<forall>j. j \<notin> aid ` fst ` {t \<in> set (turns sv as (world st)). succeeds sv t} \<longrightarrow>
        findUniqueById (store (enhanceLoop sv as st)) j = findUniqueById (store st) j) \<and>
   (\<forall>a w r. (a, w) \<in> set (turns sv as (world st)) \<and> fst (prepare sv a w) = Inr r \<longrightarrow>
        (\<exists>u. findUniqueById (store (enhanceLoop sv as st)) (aid a) = Some u \<and>
             u \<in> set (enhancedArticles (enhanceLoop sv as st)) \<and>
             isUpdated u \<and> updatedContent u = Some (rw_updatedContent r) \<and>
             references u = rw_references r))"
proof (induction as arbitrary: st)
  case Nil
  then show ?case by simp
next
  case (Cons a as)
  obtain out w' where p: "prepare sv a (world st) = (out, w')"
    by (cases "prepare sv a (world st)")
  have ts: "turns sv (a # as) (world st) = (a, world st) # turns sv as w'"
    using p by simp
  show ?case
  proof (cases out)
    case (Inl e)
    let ?st = "st\<lparr>failureCount := Suc (failureCount st), world := w'\<rparr>"
    have step: "enhanceLoop sv (a # as) st = enhanceLoop sv as ?st"
      by (rule enhanceLoop_Cons_fail) (simp add: p Inl)
    have f: "fails sv (a, world st)" "\<not> succeeds sv (a, world st)"
      using p Inl by (simp_all add: fails_def succeeds_def)
    have pre: "aid ` set as \<subseteq> aid ` set (rows (store ?st))" "distinct (map aid as)"
      using Cons.prems by auto
    have w: "world ?st = w'" by simp
    note IH = Cons.IH[OF pre, unfolded w]
    have found: "\<exists>u. findUniqueById (store (enhanceLoop sv as ?st)) (aid x) = Some u \<and>
             u \<in> set (enhancedArticles (enhanceLoop sv as ?st)) \<and>
             isUpdated u \<and> updatedContent u = Some (rw_updatedContent r') \<and>
             references u = rw_references r'"
      if "(x, v) \<in> set ((a, world st) # turns sv as w') \<and> fst (prepare sv x v) = Inr r'" for x v r'
    proof -
      have "(x, v) \<noteq> (a, world st)" using that p Inl by auto
      then have "(x, v) \<in> set (turns sv as w')" using that by auto
      then show ?thesis using that IH by blast
    qed
    have same: "{t \<in> set ((a, world st) # turns sv as w'). succeeds sv t}
                = {t \<in> set (turns sv as w'). succeeds sv t}"
      using f by auto
    have other: "\<forall>j. j \<notin> aid ` fst ` {t \<in> set ((a, world st) # turns sv as w'). succeeds sv t} \<longrightarrow>
        findUniqueById (store (enhanceLoop sv as ?st)) j = findUniqueById (store st) j"
      unfolding same using IH by simp
    show ?thesis
      unfolding step ts
      apply (intro conjI)
      subgoal using IH f by simp
      subgoal using IH f by simp
      subgoal using IH f by simp
      subgoal using IH by simp
      subgoal using IH by simp
      subgoal using other by blast
      subgoal using found by blast
      done
  next
    case (Inr r)
    have "aid a \<in> aid ` set (rows (store st))" using Cons.prems by auto
    then obtain u d' where upd: "update (store st) (aid a) (enhancedData r) = Inr (u, d')"
      using update_present by blast
    let ?st = "st\<lparr>successCount := Suc (successCount st),
        enhancedArticles := enhancedArticles st @ [u], store := d', world := w'\<rparr>"
    have step: "enhanceLoop sv (a # as) st = enhanceLoop sv as ?st"
      by (rule enhanceLoop_Cons_ok[OF _ upd]) (simp add: p Inr)
    have s: "succeeds sv (a, world st)" "\<not> fails sv (a, world st)"
      using p Inr by (simp_all add: fails_def succeeds_def)
    have ids: "map aid (rows d') = map aid (rows (store st))"
      using upd by (rule update_ids)
    then have ids': "aid ` set (rows d') = aid ` set (rows (store st))"
      by (metis list.set_map)
    have pre: "aid ` set as \<subseteq> aid ` set (rows (store ?st))" "distinct (map aid as)"
      using Cons.prems ids' by auto
    have w: "world ?st = w'" by simp
    note IH = Cons.IH[OF pre, unfolded w]
    have notin: "aid a \<notin> aid ` set as" using Cons.prems by auto
    have sub: "fst ` set (turns sv as w') \<subseteq> set as"
      using turns_articles[of sv as w'] by (metis list.set_map subset_refl)
    have notin': "aid a \<notin> aid ` fst ` {t \<in> set (turns sv as w'). succeeds sv t}"
      using notin sub by auto
    have self: "findUniqueById (store (enhanceLoop sv as ?st)) (aid a) = Some u"
      using IH notin' update_self[OF upd] by auto
    have uin: "u \<in> set (enhancedArticles (enhanceLoop sv as ?st))"
      using IH by auto
    have other: "findUniqueById (store (enhanceLoop sv as ?st)) j = findUniqueById (store st) j"
      if "j \<notin> aid ` fst ` {t \<in> set ((a, world st) # turns sv as w'). succeeds sv t}" for j
    proof -
      have "j \<noteq> aid a" using that s by force
      moreover have "j \<notin> aid ` fst ` {t \<in> set (turns sv as w'). succeeds sv t}"
        using that by auto
      ultimately show ?thesis using IH update_other[OF upd] by auto
    qed
    have found: "\<exists>u'. findUniqueById (store (enhanceLoop sv as ?st)) (aid x) = Some u' \<and>
             u' \<in> set (enhancedArticles (enhanceLoop sv as ?st)) \<and>
             isUpdated u' \<and> updatedContent u' = Some (rw_updatedContent r') \<and>
             references u' = rw_references r'"
      if "(x, v) \<in> set ((a, world st) # turns sv as w') \<and> fst (prepare sv x v) = Inr r'" for x v r'
    proof (cases "(x, v) = (a, world st)")
      case True
      then have "r' = r" using that p Inr by simp
      then show ?thesis using True self uin update_enhanced[OF upd] by auto
    next
      case False
      then have "(x, v) \<in> set (turns sv as w')" using that by auto
      then show ?thesis using that IH by blast
    qed
    show ?thesis
      unfolding step ts
      apply (intro conjI)
      subgoal using IH s by simp
      subgoal using IH s by simp
      subgoal using IH s by simp
      subgoal using IH by auto
      subgoal using IH ids by simp
      subgoal using other by blast
      subgoal using found by blast
      done
  qed
qed


lemma findManyNotUpdated_props:
  "set (findManyNotUpdated d tk) \<subseteq> set (rows d)"
  "distinct (map aid (rows d)) \<Longrightarrow> distinct (map aid (findManyNotUpdated d tk))"
  by (auto simp: findManyNotUpdated_def Let_def distinct_map_filter take_map[symmetric]
        dest: in_set_takeD split: option.splits)

lemma prepare_rewrite_throws:
  "gatherReferences sv a w = (Inr refs, w1) \<Longrightarrow>
   sv_rewriteArticle sv (title a) (content a) refs w1 = (Inl e, w2) \<Longrightarrow>
   prepare sv a w = (Inl e, w2)"
  by (simp add: prepare_def)

text \<open>
  C1. Batch enhancement, for a store whose identifiers are distinct. Every selected article
  gets its turn: the success and failure counts are the numbers of turns whose steps before
  the update return and throw, and add up to the size of the batch; the handler answers 200
  with both counts. Every article whose steps return is stored with \<open>isUpdated\<close> set and
  the rewriter's content and references, and is in the returned list. An article whose
  rewrite throws (or whose search throws) has exactly its old record in the store
  afterwards.
\<close>

theorem enhanceBatch_isolates_failures:
  assumes "distinct (map aid (rows d))"
  shows "successCount (enhanceBatch sv d w)
           = length (filter (succeeds sv) (turns sv (findManyNotUpdated d (Some 5)) w))
       \<and> failureCount (enhanceBatch sv d w)
           = length (filter (fails sv) (turns sv (findManyNotUpdated d (Some 5)) w))
       \<and> successCount (enhanceBatch sv d w) + failureCount (enhanceBatch sv d w)
           = length (findManyNotUpdated d (Some 5))
       \<and> (findManyNotUpdated d (Some 5) \<noteq> [] \<longrightarrow>
            enhanceArticles sv d w =
              (Inr \<lparr>http = 200,
                     msg = Some (EnhancementCompleted (successCount (enhanceBatch sv d w))
                                   (failureCount (enhanceBatch sv d w))),
                     data_count = Some (successCount (enhanceBatch sv d w)),
                     data_articles = enhancedArticles (enhanceBatch sv d w)\<rparr>,
               store (enhanceBatch sv d w), world (enhanceBatch sv d w)))
       \<and> (\<forall>(a, w') \<in> set (turns sv (findManyNotUpdated d (Some 5)) w).
            \<forall>r. fst (prepare sv a w') = Inr r \<longrightarrow>
            (\<exists>u. findUniqueById (store (enhanceBatch sv d w)) (aid a) = Some u \<and>
                 u \<in> set (enhancedArticles (enhanceBatch sv d w)) \<and> isUpdated u \<and>
                 updatedContent u = Some (rw_updatedContent r) \<and>
                 references u = rw_references r))
       \<and> (\<forall>(a, w') \<in> set (turns sv (findManyNotUpdated d (Some 5)) w).
            \<forall>refs w1 e w2.
            gatherReferences sv a w' = (Inr refs, w1) \<and>
            sv_rewriteArticle sv (title a) (content a) refs w1 = (Inl e, w2) \<longrightarrow>
            findUniqueById (store (enhanceBatch sv d w)) (aid a) = Some a)
       \<and> (\<forall>(a, w') \<in> set (turns sv (findManyNotUpdated d (Some 5)) w).
            fails sv (a, w') \<longrightarrow>
            findUniqueById (store (enhanceBatch sv d w)) (aid a) = Some a)"
proof -
  let ?sel = "findManyNotUpdated d (Some 5)"
  let ?st = "\<lparr>successCount = 0, failureCount = 0, enhancedArticles = [], store = d, world = w\<rparr>"
  let ?ts = "turns sv ?sel w"
  have sub: "set ?sel \<subseteq> set (rows d)" and dis: "distinct (map aid ?sel)"
    using assms by (simp_all add: findManyNotUpdated_props)
  have pre: "aid ` set ?sel \<subseteq> aid ` set (rows (store ?st))"
    using sub by auto
  note inv = enhanceLoop_inv[OF pre dis, of sv, folded enhanceBatch_def, simplified]
  have len: "length ?ts = length ?sel"
    using turns_articles[of sv ?sel w] by (metis length_map)
  have mem: "a \<in> set ?sel" if "(a, w') \<in> set ?ts" for a w'
    using that turns_articles[of sv ?sel w] by (metis fst_conv image_eqI list.set_map)
  have unchanged: "findUniqueById (store (enhanceBatch sv d w)) (aid a) = Some a"
    if t: "(a, w') \<in> set ?ts" and f: "fails sv (a, w')" for a w'
  proof -
    have "aid a \<notin> aid ` fst ` {t \<in> set ?ts. succeeds sv t}"
    proof
      assume "aid a \<in> aid ` fst ` {t \<in> set ?ts. succeeds sv t}"
      then obtain x v where x: "(x, v) \<in> set ?ts" "succeeds sv (x, v)" "aid x = aid a" by auto
      have "x = a" using mem[OF x(1)] mem[OF t] x(3) dis by (meson distinct_map inj_onD)
      have "distinct (map fst ?ts)" using turns_articles[of sv ?sel w] dis
        by (metis distinct_map)
      then have "v = w'" using x(1) t \<open>x = a\<close> by (meson eq_key_imp_eq_value)
      then show False using x(2) f \<open>x = a\<close> by (simp add: fails_def succeeds_def)
    qed
    then have "findUniqueById (store (enhanceBatch sv d w)) (aid a) = findUniqueById d (aid a)"
      using inv by blast
    also have "\<dots> = Some a" using mem[OF t] sub assms by (auto intro: findUniqueById_mem)
    finally show ?thesis .
  qed
  have thrown: "fails sv (a, w')"
    if "gatherReferences sv a w' = (Inr refs, w1) \<and>
        sv_rewriteArticle sv (title a) (content a) refs w1 = (Inl e, w2)" for a w' refs w1 e w2
    using that prepare_rewrite_throws[of sv a w' refs w1 e w2] by (simp add: fails_def)
  show ?thesis
    apply (intro conjI)
    subgoal using inv by simp
    subgoal using inv by simp
    subgoal using inv turns_counts[of sv ?ts] len by simp
    subgoal by (simp add: enhanceArticles_def Let_def)
    subgoal using inv by blast
    subgoal using unchanged thrown by blast
    subgoal using unchanged by blast
    done
qed

lemma sample_selected:
  "findManyNotUpdated sampleDb (Some 5) =
     [sampleArticle 1 ''a'' False, sampleArticle 2 ''b'' False, sampleArticle 3 ''c'' False,
      sampleArticle 4 ''d'' False, sampleArticle 5 ''e'' False]"
  by (simp add: findManyNotUpdated_def sampleDb_def sampleArticle_def)

lemma sample_gather: "gatherReferences sampleServices a w = (Inr [], w)"
  by (simp add: gatherReferences_def sampleServices_def)

lemma sample_prepare:
  "prepare sampleServices (sampleArticle i t u) w =
     (if w = 2 then Inl (Error ''backend unavailable'')
      else Inr \<lparr>rw_updatedContent = ''Enhanced '' @ t, rw_references = []\<rparr>, Suc w)"
  by (simp add: prepare_def sample_gather) (simp add: sampleServices_def sampleArticle_def)

lemma sample_turns:
  "turns sampleServices (findManyNotUpdated sampleDb (Some 5)) 0 =
     [(sampleArticle 1 ''a'' False, 0), (sampleArticle 2 ''b'' False, 1),
      (sampleArticle 3 ''c'' False, 2), (sampleArticle 4 ''d'' False, 3),
      (sampleArticle 5 ''e'' False, 4)]"
  by (simp add: sample_selected sample_prepare)

theorem enhanceBatch_isolates_failures_witness:
  "distinct (map aid (rows sampleDb))
   \<and> successCount (enhanceBatch sampleServices sampleDb 0) = 4
   \<and> failureCount (enhanceBatch sampleServices sampleDb 0) = 1
   \<and> enhanceArticles sampleServices sampleDb 0 =
        (Inr \<lparr>http = 200, msg = Some (EnhancementCompleted 4 1), data_count = Some 4,
               data_articles = enhancedArticles (enhanceBatch sampleServices sampleDb 0)\<rparr>,
         store (enhanceBatch sampleServices sampleDb 0),
         world (enhanceBatch sampleServices sampleDb 0))
   \<and> sv_rewriteArticle sampleServices (title (sampleArticle 3 ''c'' False))
        (content (sampleArticle 3 ''c'' False)) [] 2 = (Inl (Error ''backend unavailable''), 3)
   \<and> findUniqueById (store (enhanceBatch sampleServices sampleDb 0)) 3
        = Some (sampleArticle 3 ''c'' False)
   \<and> (\<exists>u. findUniqueById (store (enhanceBatch sampleServices sampleDb 0)) 4 = Some u \<and>
          isUpdated u \<and> updatedContent u = Some ''Enhanced d'' \<and> references u = [])"
proof -
  have h: "distinct (map aid (rows sampleDb))"
    by (simp add: sampleDb_def sampleArticle_def)
  have c: "sv_rewriteArticle sampleServices (title (sampleArticle 3 ''c'' False))
             (content (sampleArticle 3 ''c'' False)) [] 2 = (Inl (Error ''backend unavailable''), 3)"
    by (simp add: sampleServices_def sampleArticle_def)
  have i3: "aid (sampleArticle 3 ''c'' False) = 3" and i4: "aid (sampleArticle 4 ''d'' False) = 4"
    by (simp_all add: sampleArticle_def)
  note t = enhanceBatch_isolates_failures[OF h, of sampleServices 0, unfolded sample_turns]
  have n: "length (filter (succeeds sampleServices)
             [(sampleArticle 1 ''a'' False, 0), (sampleArticle 2 ''b'' False, 1),
              (sampleArticle 3 ''c'' False, 2), (sampleArticle 4 ''d'' False, 3),
              (sampleArticle 5 ''e'' False, 4)]) = 4"
       "length (filter (fails sampleServices)
             [(sampleArticle 1 ''a'' False, 0), (sampleArticle 2 ''b'' False, 1),
              (sampleArticle 3 ''c'' False, 2), (sampleArticle 4 ''d'' False, 3),
              (sampleArticle 5 ''e'' False, 4)]) = 1"
    by (simp_all add: succeeds_def fails_def sample_prepare)
  have ne: "findManyNotUpdated sampleDb (Some 5) \<noteq> []"
    by (simp add: sample_selected)
  have unchanged: "findUniqueById (store (enhanceBatch sampleServices sampleDb 0)) 3
        = Some (sampleArticle 3 ''c'' False)"
  proof -
    have "\<forall>refs w1 e w2.
            gatherReferences sampleServices (sampleArticle 3 ''c'' False) 2 = (Inr refs, w1) \<and>
            sv_rewriteArticle sampleServices (title (sampleArticle 3 ''c'' False))
              (content (sampleArticle 3 ''c'' False)) refs w1 = (Inl e, w2) \<longrightarrow>
            findUniqueById (store (enhanceBatch sampleServices sampleDb 0))
              (aid (sampleArticle 3 ''c'' False)) = Some (sampleArticle 3 ''c'' False)"
      using t by simp
    then show ?thesis using sample_gather[of "sampleArticle 3 ''c'' False" 2] c i3 by metis
  qed
  have updated: "\<exists>u. findUniqueById (store (enhanceBatch sampleServices sampleDb 0)) 4 = Some u \<and>
          isUpdated u \<and> updatedContent u = Some ''Enhanced d'' \<and> references u = []"
  proof -
    have "\<forall>r. fst (prepare sampleServices (sampleArticle 4 ''d'' False) 3) = Inr r \<longrightarrow>
            (\<exists>u. findUniqueById (store (enhanceBatch sampleServices sampleDb 0))
                    (aid (sampleArticle 4 ''d'' False)) = Some u \<and>
                 u \<in> set (enhancedArticles (enhanceBatch sampleServices sampleDb 0)) \<and> isUpdated u \<and>
                 updatedContent u = Some (rw_updatedContent r) \<and>
                 references u = rw_references r)"
      using t by simp
    then show ?thesis by (auto simp add: sample_prepare i4)
  qed
  have resp: "enhanceArticles sampleServices sampleDb 0 =
        (Inr \<lparr>http = 200, msg = Some (EnhancementCompleted 4 1), data_count = Some 4,
               data_articles = enhancedArticles (enhanceBatch sampleServices sampleDb 0)\<rparr>,
         store (enhanceBatch sampleServices sampleDb 0),
         world (enhanceBatch sampleServices sampleDb 0))"
    using t n ne by simp
  show ?thesis using h t n c unchanged updated resp by simp
qed

section \<open>The retry loop of the secondary backend\<close>

lemma decimal_maxAttempts: "decimal maxAttempts = ''5''"
  by code_simp

lemma geminiLoop_rate_limited:
  "(\<forall>i<k. \<exists>e. g (c + i) p = Inl e \<and> isRateLimit e) \<Longrightarrow> a + k \<le> maxAttempts \<Longrightarrow>
   geminiLoop g p a c s = geminiLoop g p (a + k) (c + k) (s + k * cooldown)"
proof (induction k arbitrary: a c s)
  case 0
  then show ?case by simp
next
  case (Suc k)
  from Suc.prems(1) obtain e where e: "g c p = Inl e" "isRateLimit e" by force
  have lt: "a < maxAttempts" using Suc.prems(2) by simp
  have step: "geminiLoop g p a c s = geminiLoop g p (Suc a) (Suc c) (s + cooldown)"
    by (subst geminiLoop.simps) (simp add: lt e)
  have "\<forall>i<k. \<exists>e. g (Suc c + i) p = Inl e \<and> isRateLimit e"
    using Suc.prems(1) by (metis Suc_less_eq add_Suc_shift)
  then have "geminiLoop g p (Suc a) (Suc c) (s + cooldown)
     = geminiLoop g p (Suc a + k) (Suc c + k) (s + cooldown + k * cooldown)"
    using Suc.IH[of "Suc c" "Suc a" "s + cooldown"] Suc.prems(2) by simp
  then show ?case using step by (simp add: algebra_simps)
qed

lemma geminiLoop_calls:
  "c \<le> a \<Longrightarrow> a \<le> maxAttempts \<Longrightarrow> fst (snd (geminiLoop g p a c s)) \<le> maxAttempts"
proof (induction g p a c s rule: geminiLoop.induct)
  case (1 g p a c s)
  show ?case
  proof (cases "a < maxAttempts")
    case True
    show ?thesis
    proof (cases "g c p")
      case (Inl e)
      then show ?thesis
        using True "1.prems" "1.IH"[OF True Inl] 
        by (subst geminiLoop.simps) (auto)
    next
      case (Inr t)
      then show ?thesis using True "1.prems" by (subst geminiLoop.simps) auto
    qed
  next
    case False
    then show ?thesis using "1.prems" by (subst geminiLoop.simps) auto
  qed
qed


lemma rateLimitedFirst_iff:
  "rateLimitedFirst g p k \<longleftrightarrow> (\<forall>i<k. \<exists>e. g i p = Inl e \<and> isRateLimit e)"
  by (induction k) (auto simp: less_Suc_eq split: sum.splits)

lemma geminiLoop_from_start:
  assumes "rateLimitedFirst g p k" and "k \<le> maxAttempts"
  shows "geminiLoop g p 0 0 0 = geminiLoop g p k k (k * cooldown)"
  using geminiLoop_rate_limited[of k g 0 p 0 0] assms by (simp add: rateLimitedFirst_iff)

lemma generate_secondary:
  "routedToSecondary env g \<Longrightarrow>
   generate env p =
     (case geminiLoop g p 0 0 0 of
        (Inl error, calls, slept) \<Rightarrow> (Inl error, calls, slept)
      | (Inr generated, calls, slept) \<Rightarrow>
          if generated = []
          then (Inl (Error ''Failed to generate content after 5 attempts due to rate limits.''),
                calls, slept)
          else (Inr generated, calls, slept))"
  by (auto simp: routedToSecondary_def generate_def decimal_maxAttempts
        split: prod.splits sum.splits)

lemma rewriteArticleRun_secondary:
  "routedToSecondary env g \<Longrightarrow>
   rewriteArticleRun env t c refs =
     (case geminiLoop g (buildPrompt t c refs) 0 0 0 of
        (Inl error, calls, slept) \<Rightarrow> \<lparr>outcome = Inl error, calls_made = calls, slept_ms = slept\<rparr>
      | (Inr generated, calls, slept) \<Rightarrow>
          if generated = []
          then \<lparr>outcome = Inl (Error ''Failed to generate content after 5 attempts due to rate limits.''),
                calls_made = calls, slept_ms = slept\<rparr>
          else \<lparr>outcome = Inr \<lparr>rw_updatedContent = generated, rw_references = map ec_url refs\<rparr>,
                calls_made = calls, slept_ms = slept\<rparr>)"
  by (frule generate_secondary[where p = "buildPrompt t c refs"])
     (auto simp: rewriteArticleRun_def routedToSecondary_def split: prod.splits sum.splits)

lemma geminiLoop_returns:
  "rateLimitedFirst g p k \<Longrightarrow> k < maxAttempts \<Longrightarrow> g k p = Inr reply \<Longrightarrow>
   geminiLoop g p 0 0 0 = (Inr reply, Suc k, k * cooldown)"
  by (simp add: geminiLoop_from_start) (simp add: geminiLoop.simps)

lemma geminiLoop_throws:
  "rateLimitedFirst g p k \<Longrightarrow> k < maxAttempts \<Longrightarrow> g k p = Inl e \<Longrightarrow> \<not> isRateLimit e \<Longrightarrow>
   geminiLoop g p 0 0 0 = (Inl e, Suc k, k * cooldown)"
  by (simp add: geminiLoop_from_start) (simp add: geminiLoop.simps)

lemma geminiLoop_exhausted:
  "rateLimitedFirst g p maxAttempts \<Longrightarrow>
   geminiLoop g p 0 0 0 = (Inr [], maxAttempts, maxAttempts * cooldown)"
  by (simp add: geminiLoop_from_start) (simp add: geminiLoop.simps)

text \<open>
  C2 (amended). For a rewrite routed to the secondary backend: when the first \<open>k < 5\<close> calls
  throw a rate-limit error and call \<open>k\<close> returns a non-empty text, the rewrite returns that
  text with the input URLs as references, after \<open>k + 1\<close> calls and \<open>k\<close> cooldowns of
  65000 ms; when call \<open>k\<close> throws any other error, that error is rethrown after \<open>k + 1\<close>
  calls, with no further call; when the first five calls are all rate-limited, the rewrite
  throws the exhaustion error after exactly five calls; no run makes more than five calls.
\<close>

theorem secondary_retry:
  assumes "routedToSecondary env g"
  shows "(k < 5 \<and> rateLimitedFirst g (buildPrompt t c refs) k \<and>
            g k (buildPrompt t c refs) = Inr reply \<and> reply \<noteq> [] \<longrightarrow>
          rewriteArticleRun env t c refs =
            \<lparr>outcome = Inr \<lparr>rw_updatedContent = reply, rw_references = map ec_url refs\<rparr>,
             calls_made = k + 1, slept_ms = k * 65000\<rparr>)
       \<and> (k < 5 \<and> rateLimitedFirst g (buildPrompt t c refs) k \<and>
            g k (buildPrompt t c refs) = Inl e \<and> \<not> isRateLimit e \<longrightarrow>
          rewriteArticleRun env t c refs =
            \<lparr>outcome = Inl e, calls_made = k + 1, slept_ms = k * 65000\<rparr>)
       \<and> (rateLimitedFirst g (buildPrompt t c refs) 5 \<longrightarrow>
          rewriteArticleRun env t c refs =
            \<lparr>outcome = Inl (Error ''Failed to generate content after 5 attempts due to rate limits.''),
             calls_made = 5, slept_ms = 5 * 65000\<rparr>)
       \<and> calls_made (rewriteArticleRun env t c refs) \<le> 5"
proof (intro conjI impI)
  note run = rewriteArticleRun_secondary[OF assms, of t c refs]
  show "rewriteArticleRun env t c refs =
            \<lparr>outcome = Inr \<lparr>rw_updatedContent = reply, rw_references = map ec_url refs\<rparr>,
             calls_made = k + 1, slept_ms = k * 65000\<rparr>"
    if "k < 5 \<and> rateLimitedFirst g (buildPrompt t c refs) k \<and>
            g k (buildPrompt t c refs) = Inr reply \<and> reply \<noteq> []"
    using that geminiLoop_returns[of g "buildPrompt t c refs" k reply]
    by (simp add: run maxAttempts_def cooldown_def)
  show "rewriteArticleRun env t c refs =
            \<lparr>outcome = Inl e, calls_made = k + 1, slept_ms = k * 65000\<rparr>"
    if "k < 5 \<and> rateLimitedFirst g (buildPrompt t c refs) k \<and>
            g k (buildPrompt t c refs) = Inl e \<and> \<not> isRateLimit e"
    using that geminiLoop_throws[of g "buildPrompt t c refs" k e]
    by (simp add: run maxAttempts_def cooldown_def)
  show "rewriteArticleRun env t c refs =
            \<lparr>outcome = Inl (Error ''Failed to generate content after 5 attempts due to rate limits.''),
             calls_made = 5, slept_ms = 5 * 65000\<rparr>"
    if "rateLimitedFirst g (buildPrompt t c refs) 5"
    using that geminiLoop_exhausted[of g "buildPrompt t c refs"]
    by (simp add: run maxAttempts_def cooldown_def)
  have "fst (snd (geminiLoop g (buildPrompt t c refs) 0 0 0)) \<le> maxAttempts"
    by (rule geminiLoop_calls) simp_all
  then show "calls_made (rewriteArticleRun env t c refs) \<le> 5"
    by (auto simp: run maxAttempts_def split: prod.splits sum.splits)
qed


lemma routed_secondaryOnly: "routedToSecondary (secondaryOnly g) g"
  by (simp add: routedToSecondary_def secondaryOnly_def)

lemma isRateLimit_rateLimitError: "isRateLimit rateLimitError"
  by (simp add: isRateLimit_def rateLimitError_def)

lemma not_isRateLimit_fetch: "\<not> isRateLimit (Error ''fetch failed'')"
  by (simp add: isRateLimit_def Error_def)

theorem secondary_retry_witness:
  "routedToSecondary (secondaryOnly (limitedThen 4 ''Rewritten'')) (limitedThen 4 ''Rewritten'')
   \<and> rewriteArticleRun (secondaryOnly (limitedThen 4 ''Rewritten'')) ''T'' ''C'' [] =
        \<lparr>outcome = Inr \<lparr>rw_updatedContent = ''Rewritten'', rw_references = []\<rparr>,
         calls_made = 5, slept_ms = 260000\<rparr>
   \<and> rewriteArticleRun (secondaryOnly alwaysFails) ''T'' ''C'' [] =
        \<lparr>outcome = Inl (Error ''fetch failed''), calls_made = 1, slept_ms = 0\<rparr>
   \<and> rewriteArticleRun (secondaryOnly alwaysLimited) ''T'' ''C'' [] =
        \<lparr>outcome = Inl (Error ''Failed to generate content after 5 attempts due to rate limits.''),
         calls_made = 5, slept_ms = 325000\<rparr>"
proof -
  let ?p = "buildPrompt ''T'' ''C'' []"
  have a: "(4::nat) < 5 \<and> rateLimitedFirst (limitedThen 4 ''Rewritten'') ?p 4 \<and>
           limitedThen 4 ''Rewritten'' 4 ?p = Inr ''Rewritten'' \<and> ''Rewritten'' \<noteq> []"
    by (simp add: eval_nat_numeral limitedThen_def isRateLimit_rateLimitError)
  have b: "(0::nat) < 5 \<and> rateLimitedFirst alwaysFails ?p 0 \<and>
           alwaysFails 0 ?p = Inl (Error ''fetch failed'') \<and> \<not> isRateLimit (Error ''fetch failed'')"
    by (simp add: alwaysFails_def not_isRateLimit_fetch)
  have c: "rateLimitedFirst alwaysLimited ?p 5"
    by (simp add: eval_nat_numeral alwaysLimited_def isRateLimit_rateLimitError)
  from secondary_retry[OF routed_secondaryOnly, of 4 "limitedThen 4 ''Rewritten''" "''T''" "''C''" "[]" "''Rewritten''"] a
  have 1: "rewriteArticleRun (secondaryOnly (limitedThen 4 ''Rewritten'')) ''T'' ''C'' [] =
        \<lparr>outcome = Inr \<lparr>rw_updatedContent = ''Rewritten'', rw_references = []\<rparr>,
         calls_made = 5, slept_ms = 260000\<rparr>" by simp
  from secondary_retry[OF routed_secondaryOnly, of 0 alwaysFails "''T''" "''C''" "[]" _ "Error ''fetch failed''"] b
  have 2: "rewriteArticleRun (secondaryOnly alwaysFails) ''T'' ''C'' [] =
        \<lparr>outcome = Inl (Error ''fetch failed''), calls_made = 1, slept_ms = 0\<rparr>" by simp
  from secondary_retry[OF routed_secondaryOnly, of _ alwaysLimited "''T''" "''C''" "[]"] c
  have 3: "rewriteArticleRun (secondaryOnly alwaysLimited) ''T'' ''C'' [] =
        \<lparr>outcome = Inl (Error ''Failed to generate content after 5 attempts due to rate limits.''),
         calls_made = 5, slept_ms = 325000\<rparr>" by simp
  show ?thesis using 1 2 3 routed_secondaryOnly by simp
qed

text \<open>
  The claim as first stated fails: a first call that returns, with an empty text, ends the
  loop, and the rewrite throws the exhaustion error after that single call.
\<close>

theorem secondary_empty_reply_counterexample:
  "routedToSecondary (secondaryOnly (limitedThen 0 [])) (limitedThen 0 [])
   \<and> limitedThen 0 [] 0 (buildPrompt ''T'' ''C'' []) = Inr []
   \<and> rewriteArticleRun (secondaryOnly (limitedThen 0 [])) ''T'' ''C'' [] =
        \<lparr>outcome = Inl (Error ''Failed to generate content after 5 attempts due to rate limits.''),
         calls_made = 1, slept_ms = 0\<rparr>"
proof -
  have "geminiLoop (limitedThen 0 []) (buildPrompt ''T'' ''C'' []) 0 0 0 = (Inr [], 1, 0)"
    by (subst geminiLoop.simps) (simp add: limitedThen_def maxAttempts_def)
  then show ?thesis
    by (simp add: rewriteArticleRun_secondary[OF routed_secondaryOnly] routed_secondaryOnly)
       (simp add: limitedThen_def)
qed

section \<open>Records touched by an enhancement run\<close>

lemma enhancedBy_refl: "enhancedBy Q r r"
  by (simp add: enhancedBy_def)

lemma enhancedBy_trans: "enhancedBy Q r r' \<Longrightarrow> enhancedBy Q r' r'' \<Longrightarrow> enhancedBy Q r r''"
  by (auto simp: enhancedBy_def)

lemma rows_enhancedBy_refl: "list_all2 (enhancedBy Q) xs xs"
  by (simp add: list_all2_same enhancedBy_refl)

lemma rows_enhancedBy_trans:
  "list_all2 (enhancedBy Q) xs ys \<Longrightarrow> list_all2 (enhancedBy Q) ys zs \<Longrightarrow>
   list_all2 (enhancedBy Q) xs zs"
  using list_all2_trans[of "enhancedBy Q" "enhancedBy Q" "enhancedBy Q" xs ys zs] enhancedBy_trans
  by blast

lemma update_enhancedBy:
  assumes "update d i (enhancedData res) = Inr (u, d')" and "Q (rw_updatedContent res)"
  shows "list_all2 (enhancedBy Q) (rows d) (rows d')"
proof -
  have u: "aid u = i" "isUpdated u" "updatedContent u = Some (rw_updatedContent res)"
    using update_rows(1)[OF assms(1)] update_enhanced[OF assms(1)] by simp_all
  have "rows d' = map (\<lambda>r. if aid r = i then u else r) (rows d)"
    using assms(1) by (rule update_rows(3))
  then show ?thesis
    using u assms(2) by (simp add: list.rel_map list_all2_same enhancedBy_def)
qed

lemma enhanceOne_enhancedBy:
  assumes "\<forall>t c refs w res w'. sv_rewriteArticle sv t c refs w = (Inr res, w') \<longrightarrow>
             Q (rw_updatedContent res)"
    and "enhanceOne sv d a w = (Inr (u, d'), w')"
  shows "list_all2 (enhancedBy Q) (rows d) (rows d')"
    and "isUpdated u \<and> (\<exists>c. updatedContent u = Some c \<and> Q c)"
proof -
  obtain g w1 where g: "gatherReferences sv a w = (g, w1)"
    by (cases "gatherReferences sv a w")
  obtain refs where gr: "g = Inr refs"
    using assms(2) g by (cases g) (simp_all add: enhanceOne_def)
  obtain rr w2 where r: "sv_rewriteArticle sv (title a) (content a) refs w1 = (rr, w2)"
    by (cases "sv_rewriteArticle sv (title a) (content a) refs w1")
  obtain res where rres: "rr = Inr res"
    using assms(2) g gr r by (cases rr) (simp_all add: enhanceOne_def)
  have upd: "update d (aid a) (enhancedData res) = Inr (u, d')"
    using assms(2) g gr r rres by (simp add: enhanceOne_def)
  have q: "Q (rw_updatedContent res)" using assms(1) r rres by blast
  show "list_all2 (enhancedBy Q) (rows d) (rows d')"
    using upd q by (rule update_enhancedBy)
  show "isUpdated u \<and> (\<exists>c. updatedContent u = Some c \<and> Q c)"
    using update_enhanced[OF upd] q by simp
qed

lemma enhanceLoop_enhancedBy:
  assumes "\<forall>t c refs w res w'. sv_rewriteArticle sv t c refs w = (Inr res, w') \<longrightarrow>
             Q (rw_updatedContent res)"
  shows "list_all2 (enhancedBy Q) (rows (store st)) (rows (store (enhanceLoop sv as st))) \<and>
         ((\<forall>u \<in> set (enhancedArticles st). isUpdated u \<and> (\<exists>c. updatedContent u = Some c \<and> Q c)) \<longrightarrow>
          (\<forall>u \<in> set (enhancedArticles (enhanceLoop sv as st)).
              isUpdated u \<and> (\<exists>c. updatedContent u = Some c \<and> Q c)))"
proof (induction as arbitrary: st)
  case Nil
  show ?case by (simp add: rows_enhancedBy_refl)
next
  case (Cons a as)
  obtain out w' where one: "enhanceOne sv (store st) a (world st) = (out, w')"
    by (cases "enhanceOne sv (store st) a (world st)")
  show ?case
  proof (cases out)
    case (Inl e)
    let ?st = "st\<lparr>failureCount := Suc (failureCount st), world := w'\<rparr>"
    have step: "enhanceLoop sv (a # as) st = enhanceLoop sv as ?st"
      using one Inl by simp
    have eq: "store ?st = store st" "enhancedArticles ?st = enhancedArticles st" by simp_all
    show ?thesis unfolding step using Cons.IH[of ?st] unfolding eq .
  next
    case (Inr p)
    obtain u d' where p: "p = (u, d')" by (cases p)
    let ?st = "st\<lparr>successCount := Suc (successCount st),
               enhancedArticles := enhancedArticles st @ [u], store := d', world := w'\<rparr>"
    have one': "enhanceOne sv (store st) a (world st) = (Inr (u, d'), w')"
      using one Inr p by simp
    have step: "enhanceLoop sv (a # as) st = enhanceLoop sv as ?st"
      using one' by simp
    have eq: "store ?st = d'" "enhancedArticles ?st = enhancedArticles st @ [u]" by simp_all
    note e = enhanceOne_enhancedBy[OF assms one']
    note IH = Cons.IH[of ?st, unfolded eq]
    have 1: "list_all2 (enhancedBy Q) (rows (store st)) (rows (store (enhanceLoop sv as ?st)))"
      using e(1) IH rows_enhancedBy_trans by blast
    have 2: "\<forall>u \<in> set (enhancedArticles (enhanceLoop sv as ?st)).
              isUpdated u \<and> (\<exists>c. updatedContent u = Some c \<and> Q c)"
      if "\<forall>u \<in> set (enhancedArticles st). isUpdated u \<and> (\<exists>c. updatedContent u = Some c \<and> Q c)"
    proof -
      have "\<forall>v \<in> set (enhancedArticles st @ [u]). isUpdated v \<and> (\<exists>c. updatedContent v = Some c \<and> Q c)"
        using that e(2) by simp
      then show ?thesis using IH by blast
    qed
    show ?thesis unfolding step using 1 2 by blast
  qed
qed

lemma updateOne_enhancedBy:
  assumes "\<forall>t c refs w res w'. sv_rewriteArticle sv t c refs w = (Inr res, w') \<longrightarrow>
             Q (rw_updatedContent res)"
    and "updateOne sv d a w = (Inr (Some d'), w')"
  shows "list_all2 (enhancedBy Q) (rows d) (rows d')"
proof -
  from assms(2) obtain refs w2 res w3 u where
    r: "sv_rewriteArticle sv (title a) (content a) refs w2 = (Inr res, w3)"
    and upd: "update d (aid a) (enhancedData res) = Inr (u, d')"
    by (auto simp: updateOne_def split: prod.splits sum.splits if_splits)
  have q: "Q (rw_updatedContent res)" using assms(1) r by blast
  show ?thesis using upd q by (rule update_enhancedBy)
qed

lemma updateLoop_enhancedBy:
  assumes "\<forall>t c refs w res w'. sv_rewriteArticle sv t c refs w = (Inr res, w') \<longrightarrow>
             Q (rw_updatedContent res)"
  shows "list_all2 (enhancedBy Q) (rows d) (rows (fst (snd (snd (updateLoop sv as (n, m, d, w))))))"
proof (induction as arbitrary: n m d w)
  case Nil
  show ?case by (simp add: rows_enhancedBy_refl)
next
  case (Cons a as)
  obtain out w' where one: "updateOne sv d a w = (out, w')"
    by (cases "updateOne sv d a w")
  show ?case
  proof (cases out)
    case (Inl e)
    then show ?thesis using one Cons.IH[where d = d] by simp
  next
    case (Inr res)
    show ?thesis
    proof (cases res)
      case None
      then show ?thesis using one Inr Cons.IH[where d = d] by simp
    next
      case (Some d')
      have "updateOne sv d a w = (Inr (Some d'), w')" using one Inr Some by simp
      then have "list_all2 (enhancedBy Q) (rows d) (rows d')"
        by (rule updateOne_enhancedBy[OF assms])
      then show ?thesis
        using one Inr Some Cons.IH[where d = d'] rows_enhancedBy_trans[of Q "rows d" "rows d'"]
        by simp
    qed
  qed
qed

lemma pipeline_enhancedBy:
  assumes "\<forall>t c refs w res w'. sv_rewriteArticle sv t c refs w = (Inr res, w') \<longrightarrow>
             Q (rw_updatedContent res)"
  shows "list_all2 (enhancedBy Q) (rows d) (rows (store (enhanceBatch sv d w)))"
    and "list_all2 (enhancedBy Q) (rows d) (rows (fst (snd (enhanceArticles sv d w))))"
    and "list_all2 (enhancedBy Q) (rows d) (rows (fst (snd (enhanceArticleById sv d i w))))"
    and "list_all2 (enhancedBy Q) (rows d) (rows (fst (snd (snd (updateArticlesMain sv d w)))))"
    and "\<forall>u \<in> set (enhancedArticles (enhanceBatch sv d w)).
            isUpdated u \<and> (\<exists>c. updatedContent u = Some c \<and> Q c)"
proof -
  let ?st = "\<lparr>successCount = 0, failureCount = 0, enhancedArticles = [], store = d, world = w\<rparr>"
  note l = enhanceLoop_enhancedBy[OF assms, of ?st "findManyNotUpdated d (Some 5)",
              folded enhanceBatch_def]
  show b: "list_all2 (enhancedBy Q) (rows d) (rows (store (enhanceBatch sv d w)))"
    using l by simp
  show "list_all2 (enhancedBy Q) (rows d) (rows (fst (snd (enhanceArticles sv d w))))"
    using b by (simp add: enhanceArticles_def Let_def rows_enhancedBy_refl)
  show "list_all2 (enhancedBy Q) (rows d) (rows (fst (snd (enhanceArticleById sv d i w))))"
  proof (cases "findUniqueById d i")
    case None
    then show ?thesis by (simp add: enhanceArticleById_def rows_enhancedBy_refl)
  next
    case (Some a)
    obtain out w' where one: "enhanceOne sv d a w = (out, w')"
      by (cases "enhanceOne sv d a w")
    show ?thesis
    proof (cases out)
      case (Inl e)
      then show ?thesis using Some one by (simp add: enhanceArticleById_def rows_enhancedBy_refl)
    next
      case (Inr p)
      obtain u d' where p: "p = (u, d')" by (cases p)
      have "enhanceOne sv d a w = (Inr (u, d'), w')" using one Inr p by simp
      then have "list_all2 (enhancedBy Q) (rows d) (rows d')"
        by (rule enhanceOne_enhancedBy(1)[OF assms])
      then show ?thesis using Some one Inr p by (simp add: enhanceArticleById_def)
    qed
  qed
  show "list_all2 (enhancedBy Q) (rows d) (rows (fst (snd (snd (updateArticlesMain sv d w)))))"
    by (simp add: updateArticlesMain_def updateLoop_enhancedBy[OF assms])
  show "\<forall>u \<in> set (enhancedArticles (enhanceBatch sv d w)).
            isUpdated u \<and> (\<exists>c. updatedContent u = Some c \<and> Q c)"
    using l by simp
qed

section \<open>A returned rewrite is never empty\<close>

lemma rewriteArticleRun_outcome:
  "outcome (rewriteArticleRun env t c refs) =
     (if \<not> hasOpenAI env \<and> \<not> hasGemini env
      then Inl (Error ''Neither OPENAI_API_KEY nor GEMINI_API_KEY is set in environment variables'')
      else case fst (generate env (buildPrompt t c refs)) of
             Inl error \<Rightarrow> Inl error
           | Inr generated \<Rightarrow>
               if generated = [] then Inl (Error ''LLM returned empty content'')
               else Inr \<lparr>rw_updatedContent = generated, rw_references = map ec_url refs\<rparr>)"
  by (simp add: rewriteArticleRun_def split: prod.splits sum.splits)

lemma rewriteArticle_returns:
  "rewriteArticle env t c refs = Inr r \<Longrightarrow>
     rw_updatedContent r \<noteq> [] \<and> rw_references r = map ec_url refs"
  by (auto simp: rewriteArticle_def rewriteArticleRun_outcome split: if_splits sum.splits)

lemma rewriter_nonEmpty:
  "\<forall>t c refs w res w'.
      sv_rewriteArticle (sv\<lparr>sv_rewriteArticle := rewriterIn out\<rparr>) t c refs w = (Inr res, w')
      \<longrightarrow> nonEmpty (rw_updatedContent res)"
  by (simp add: nonEmpty_def rewriterIn_def rewriteArticle_returns)

text \<open>
  C10. Whenever \<open>rewriteArticle\<close> returns, its \<open>updatedContent\<close> is a non-empty string:
  an empty or missing generation of the primary backend, and a call in which neither
  backend branch is taken, throw \<open>LLM returned empty content\<close>. Hence, with this rewriter,
  every article the batch returns as enhanced is marked updated with a non-empty
  \<open>updatedContent\<close>, and every stored record is either untouched or marked updated with a
  non-empty \<open>updatedContent\<close>, after the batch handler, the single-article handler and
  the standalone script.
\<close>

theorem rewriteArticle_nonempty:
  "(\<forall>r. rewriteArticle env t c refs = Inr r \<longrightarrow> rw_updatedContent r \<noteq> [])
   \<and> (hasOpenAI env \<and> openai env = Some f \<and>
        (f systemMessage (buildPrompt t c refs) = Inr None \<or>
         f systemMessage (buildPrompt t c refs) = Inr (Some [])) \<longrightarrow>
       rewriteArticle env t c refs = Inl (Error ''LLM returned empty content''))
   \<and> ((hasOpenAI env \<or> hasGemini env) \<and> \<not> (hasOpenAI env \<and> openai env \<noteq> None) \<and>
        \<not> (hasGemini env \<and> genAI env \<noteq> None) \<longrightarrow>
       rewriteArticle env t c refs = Inl (Error ''LLM returned empty content''))
   \<and> (\<forall>u \<in> set (enhancedArticles (enhanceBatch (sv\<lparr>sv_rewriteArticle := rewriterIn out\<rparr>) d w)).
         isUpdated u \<and> (\<exists>generated. updatedContent u = Some generated \<and> generated \<noteq> []))
   \<and> list_all2 (enhancedBy nonEmpty) (rows d)
         (rows (fst (snd (enhanceArticles (sv\<lparr>sv_rewriteArticle := rewriterIn out\<rparr>) d w))))
   \<and> list_all2 (enhancedBy nonEmpty) (rows d)
         (rows (fst (snd (enhanceArticleById (sv\<lparr>sv_rewriteArticle := rewriterIn out\<rparr>) d i w))))
   \<and> list_all2 (enhancedBy nonEmpty) (rows d)
         (rows (fst (snd (snd (updateArticlesMain (sv\<lparr>sv_rewriteArticle := rewriterIn out\<rparr>) d w)))))"
proof (intro conjI allI impI)
  show "rw_updatedContent r \<noteq> []" if "rewriteArticle env t c refs = Inr r" for r
    using that by (simp add: rewriteArticle_returns)
  show "rewriteArticle env t c refs = Inl (Error ''LLM returned empty content'')"
    if "hasOpenAI env \<and> openai env = Some f \<and>
        (f systemMessage (buildPrompt t c refs) = Inr None \<or>
         f systemMessage (buildPrompt t c refs) = Inr (Some []))"
    using that by (auto simp: rewriteArticle_def rewriteArticleRun_outcome generate_def)
  show "rewriteArticle env t c refs = Inl (Error ''LLM returned empty content'')"
    if "(hasOpenAI env \<or> hasGemini env) \<and> \<not> (hasOpenAI env \<and> openai env \<noteq> None) \<and>
        \<not> (hasGemini env \<and> genAI env \<noteq> None)"
    using that by (auto simp: rewriteArticle_def rewriteArticleRun_outcome generate_def)
  note p = pipeline_enhancedBy[OF rewriter_nonEmpty]
  show "\<forall>u \<in> set (enhancedArticles (enhanceBatch (sv\<lparr>sv_rewriteArticle := rewriterIn out\<rparr>) d w)).
         isUpdated u \<and> (\<exists>generated. updatedContent u = Some generated \<and> generated \<noteq> [])"
    using p(5) by (simp add: nonEmpty_def)
  show "list_all2 (enhancedBy nonEmpty) (rows d)
         (rows (fst (snd (enhanceArticles (sv\<lparr>sv_rewriteArticle := rewriterIn out\<rparr>) d w))))"
    by (rule p(2))
  show "list_all2 (enhancedBy nonEmpty) (rows d)
         (rows (fst (snd (enhanceArticleById (sv\<lparr>sv_rewriteArticle := rewriterIn out\<rparr>) d i w))))"
    by (rule p(3))
  show "list_all2 (enhancedBy nonEmpty) (rows d)
         (rows (fst (snd (snd (updateArticlesMain (sv\<lparr>sv_rewriteArticle := rewriterIn out\<rparr>) d w)))))"
    by (rule p(4))
qed

lemma rewriteArticle_immediate:
  "reply \<noteq> [] \<Longrightarrow>
   rewriteArticle (secondaryOnly (limitedThen 0 reply)) t c refs =
     Inr \<lparr>rw_updatedContent = reply, rw_references = map ec_url refs\<rparr>"
  using geminiLoop_returns[of "limitedThen 0 reply" "buildPrompt t c refs" 0 reply]
  by (simp add: rewriteArticle_def rewriteArticleRun_secondary[OF routed_secondaryOnly]
        limitedThen_def maxAttempts_def)

theorem rewriteArticle_nonempty_witness:
  "rewriteArticle (secondaryOnly (limitedThen 0 ''Rewritten'')) ''T'' ''C'' []
      = Inr \<lparr>rw_updatedContent = ''Rewritten'', rw_references = []\<rparr>
   \<and> rewriteArticle (primaryOnly (\<lambda>system prompt. Inr None)) ''T'' ''C'' []
      = Inl (Error ''LLM returned empty content'')
   \<and> rewriteArticle lateKey ''T'' ''C'' [] = Inl (Error ''LLM returned empty content'')
   \<and> successCount (enhanceBatch
        (sampleServices\<lparr>sv_rewriteArticle :=
           rewriterIn (constantOutside (secondaryOnly (limitedThen 0 ''Rewritten'')))\<rparr>)
        sampleDb 0) = 5
   \<and> length (enhancedArticles (enhanceBatch
        (sampleServices\<lparr>sv_rewriteArticle :=
           rewriterIn (constantOutside (secondaryOnly (limitedThen 0 ''Rewritten'')))\<rparr>)
        sampleDb 0)) = 5"
proof -
  let ?env = "secondaryOnly (limitedThen 0 ''Rewritten'')"
  let ?sv = "sampleServices\<lparr>sv_rewriteArticle := rewriterIn (constantOutside ?env)\<rparr>"
  let ?st = "\<lparr>successCount = 0, failureCount = 0, enhancedArticles = [], store = sampleDb,
              world = 0::nat\<rparr>"
  have 1: "rewriteArticle ?env ''T'' ''C'' []
      = Inr \<lparr>rw_updatedContent = ''Rewritten'', rw_references = []\<rparr>"
    by (simp add: rewriteArticle_immediate)
  have h2: "hasOpenAI (primaryOnly (\<lambda>system prompt. Inr None)) \<and>
        openai (primaryOnly (\<lambda>system prompt. Inr None)) = Some (\<lambda>system prompt. Inr None)"
    by (simp add: primaryOnly_def)
  have h3: "(hasOpenAI lateKey \<or> hasGemini lateKey) \<and> \<not> (hasOpenAI lateKey \<and> openai lateKey \<noteq> None) \<and>
        \<not> (hasGemini lateKey \<and> genAI lateKey \<noteq> None)"
    by (simp add: lateKey_def)
  have 2: "rewriteArticle (primaryOnly (\<lambda>system prompt. Inr None)) ''T'' ''C'' []
      = Inl (Error ''LLM returned empty content'')"
    using rewriteArticle_nonempty[where env = "primaryOnly (\<lambda>system prompt. Inr None)"
            and t = "''T''" and c = "''C''" and refs = "[]" and f = "\<lambda>system prompt. Inr None"
            and out = "constantOutside noKeys" and sv = sampleServices and d = sampleDb
            and w = 0 and i = 0, THEN conjunct2, THEN conjunct1] h2
    by blast
  have 3: "rewriteArticle lateKey ''T'' ''C'' [] = Inl (Error ''LLM returned empty content'')"
    using rewriteArticle_nonempty[where env = lateKey and t = "''T''" and c = "''C''"
            and refs = "[]" and out = "constantOutside noKeys" and sv = sampleServices
            and d = sampleDb and w = 0 and i = 0, THEN conjunct2, THEN conjunct2, THEN conjunct1] h3
    by blast
  have prep: "prepare ?sv a w = (Inr \<lparr>rw_updatedContent = ''Rewritten'', rw_references = []\<rparr>, Suc w)"
    for a w
    by (simp add: prepare_def gatherReferences_def sampleServices_def rewriterIn_def
          constantOutside_def rewriteArticle_immediate)
  have all: "filter (succeeds ?sv) ts = ts" for ts
    by (simp add: succeeds_def prep case_prod_beta)
  have "length (turns ?sv (findManyNotUpdated sampleDb (Some 5)) 0)
          = length (findManyNotUpdated sampleDb (Some 5))"
    using turns_articles[of ?sv "findManyNotUpdated sampleDb (Some 5)" 0] by (metis length_map)
  also have "\<dots> = 5" by (simp add: sample_selected)
  finally have len: "length (turns ?sv (findManyNotUpdated sampleDb (Some 5)) 0) = 5" .
  have ids: "aid ` set (findManyNotUpdated sampleDb (Some 5)) \<subseteq> aid ` set (rows (store ?st))"
    using findManyNotUpdated_props(1)[of sampleDb "Some 5"] by auto
  have dis: "distinct (map aid (findManyNotUpdated sampleDb (Some 5)))"
    by (simp add: sample_selected sampleArticle_def)
  note inv = enhanceLoop_inv[OF ids dis, of ?sv, folded enhanceBatch_def, simplified]
  have 4: "successCount (enhanceBatch ?sv sampleDb 0) = 5"
    using inv by (simp add: all len)
  have 5: "length (enhancedArticles (enhanceBatch ?sv sampleDb 0)) = 5"
    using inv by (simp add: all len)
  show ?thesis using 1 2 3 4 5 by simp
qed

section \<open>The isUpdated flag\<close>

lemma enhancedBy_monotone:
  "enhancedBy (\<lambda>c. True) r r' \<Longrightarrow>
     aid r' = aid r \<and> (isUpdated r \<longrightarrow> isUpdated r') \<and>
     (r' \<noteq> r \<longrightarrow> isUpdated r' \<and> updatedContent r' \<noteq> None)"
  by (auto simp: enhancedBy_def split: option.splits)

lemma updateArticle_isUpdated:
  assumes "findUniqueById d i = Some a" and "ub_isUpdated b = Some v"
  shows "\<exists>u. findUniqueById (snd (updateArticle d i b)) i = Some u \<and> isUpdated u = v"
proof -
  let ?dat = "\<lparr>ud_title = truthy (ub_title b), ud_content = truthy (ub_content b),
                   ud_author = truthy (ub_author b),
                   ud_publishedDate = map_option Date (truthy (ub_publishedDate b)),
                   ud_isUpdated = ub_isUpdated b,
                   ud_updatedContent = truthy (ub_updatedContent b),
                   ud_references = ub_references b\<rparr>"
  have "i \<in> aid ` set (rows d)" using assms(1) by (auto dest: findUniqueById_SomeD)
  then obtain u d' where upd: "update d i ?dat = Inr (u, d')"
    using update_present by blast
  have "isUpdated u = v"
    using update_rows(4)[OF upd] assms by (auto simp: applyData_def)
  moreover have "findUniqueById d' i = Some u" using update_self[OF upd] by simp
  moreover have "snd (updateArticle d i b) = d'"
    using assms(1) upd by (simp add: updateArticle_def)
  ultimately show ?thesis by simp
qed

text \<open>
  C8 (amended). The enhancement paths (batch handler, single-article handler, standalone
  script) keep every stored record's identifier, never turn \<open>isUpdated\<close> from true to
  false, and every record they change ends with \<open>isUpdated\<close> set and \<open>updatedContent\<close>
  set. The update handler is not bound by this: for an existing article it stores whatever
  \<open>isUpdated\<close> value the request carries.
\<close>

theorem pipeline_isUpdated_monotone:
  "list_all2 (\<lambda>r r'. aid r' = aid r \<and> (isUpdated r \<longrightarrow> isUpdated r') \<and>
                 (r' \<noteq> r \<longrightarrow> isUpdated r' \<and> updatedContent r' \<noteq> None))
      (rows d) (rows (fst (snd (enhanceArticles sv d w))))
   \<and> list_all2 (\<lambda>r r'. aid r' = aid r \<and> (isUpdated r \<longrightarrow> isUpdated r') \<and>
                 (r' \<noteq> r \<longrightarrow> isUpdated r' \<and> updatedContent r' \<noteq> None))
      (rows d) (rows (fst (snd (enhanceArticleById sv d i w))))
   \<and> list_all2 (\<lambda>r r'. aid r' = aid r \<and> (isUpdated r \<longrightarrow> isUpdated r') \<and>
                 (r' \<noteq> r \<longrightarrow> isUpdated r' \<and> updatedContent r' \<noteq> None))
      (rows d) (rows (fst (snd (snd (updateArticlesMain sv d w)))))
   \<and> (findUniqueById d i = Some a \<and> ub_isUpdated b = Some v \<longrightarrow>
        (\<exists>u. findUniqueById (snd (updateArticle d i b)) i = Some u \<and> isUpdated u = v))"
proof -
  have mono: "list_all2 (\<lambda>r r'. aid r' = aid r \<and> (isUpdated r \<longrightarrow> isUpdated r') \<and>
                 (r' \<noteq> r \<longrightarrow> isUpdated r' \<and> updatedContent r' \<noteq> None)) xs ys"
    if "list_all2 (enhancedBy (\<lambda>c. True)) xs ys" for xs ys
    using that by (rule list_all2_mono) (rule enhancedBy_monotone)
  have 1: "list_all2 (enhancedBy (\<lambda>c. True)) (rows d) (rows (fst (snd (enhanceArticles sv d w))))"
    by (rule pipeline_enhancedBy(2)) simp
  have 2: "list_all2 (enhancedBy (\<lambda>c. True)) (rows d)
             (rows (fst (snd (enhanceArticleById sv d i w))))"
    by (rule pipeline_enhancedBy(3)) simp
  have 3: "list_all2 (enhancedBy (\<lambda>c. True)) (rows d)
             (rows (fst (snd (snd (updateArticlesMain sv d w)))))"
    by (rule pipeline_enhancedBy(4)) simp
  have 4: "findUniqueById d i = Some a \<and> ub_isUpdated b = Some v \<longrightarrow>
        (\<exists>u. findUniqueById (snd (updateArticle d i b)) i = Some u \<and> isUpdated u = v)"
    using updateArticle_isUpdated by blast
  show ?thesis
    using mono[OF 1] mono[OF 2] mono[OF 3] 4 by (intro conjI)
qed

theorem pipeline_isUpdated_monotone_witness:
  "map isUpdated (rows sampleDb) = [False, False, False, False, False, True, False]
   \<and> map isUpdated (rows (fst (snd (enhanceArticles sampleServices sampleDb 0))))
        = [True, True, False, True, True, True, False]
   \<and> map updatedContent (rows (fst (snd (enhanceArticles sampleServices sampleDb 0))))
        = [Some ''Enhanced a'', Some ''Enhanced b'', None, Some ''Enhanced d'',
           Some ''Enhanced e'', Some ''Enhanced f'', None]
   \<and> findUniqueById sampleDb 6 = Some (sampleArticle 6 ''f'' True)
   \<and> ub_isUpdated resetRequest = Some False
   \<and> (\<exists>u. findUniqueById (snd (updateArticle sampleDb 6 resetRequest)) 6 = Some u \<and>
          isUpdated u = False)"
proof -
  have a: "findUniqueById sampleDb 6 = Some (sampleArticle 6 ''f'' True) \<and>
           ub_isUpdated resetRequest = Some False"
    by (simp add: findUniqueById_def sampleDb_def sampleArticle_def resetRequest_def)
  have b: "map isUpdated (rows sampleDb) = [False, False, False, False, False, True, False]"
    by (simp add: sampleDb_def sampleArticle_def)
  have c: "map isUpdated (rows (fst (snd (enhanceArticles sampleServices sampleDb 0))))
        = [True, True, False, True, True, True, False]"
    by code_simp
  have d: "map updatedContent (rows (fst (snd (enhanceArticles sampleServices sampleDb 0))))
        = [Some ''Enhanced a'', Some ''Enhanced b'', None, Some ''Enhanced d'',
           Some ''Enhanced e'', Some ''Enhanced f'', None]"
    by code_simp
  have e: "\<exists>u. findUniqueById (snd (updateArticle sampleDb 6 resetRequest)) 6 = Some u \<and>
          isUpdated u = False"
    using pipeline_isUpdated_monotone[where d = sampleDb and sv = sampleServices and i = 6
            and a = "sampleArticle 6 ''f'' True" and b = resetRequest and v = False and w = 0,
            THEN conjunct2, THEN conjunct2, THEN conjunct2] a
    by blast
  show ?thesis using a b c d e by blast
qed

text \<open>
  The claim as first stated fails: the update handler, given \<open>isUpdated: false\<close> for an
  article that is marked updated, stores it as not updated.
\<close>

theorem updateArticle_resets_isUpdated_counterexample:
  "findUniqueById sampleDb 6 = Some (sampleArticle 6 ''f'' True)
   \<and> isUpdated (sampleArticle 6 ''f'' True)
   \<and> findUniqueById (snd (updateArticle sampleDb 6 resetRequest)) 6
        = Some ((sampleArticle 6 ''f'' True)\<lparr>isUpdated := False, updatedAt := 8\<rparr>)"
  by (simp add: updateArticle_def update_def findUniqueById_def sampleDb_def sampleArticle_def
        resetRequest_def applyData_def truthy_def Let_def)

section \<open>Enhancement with no search result\<close>

lemma enhanceArticleById_ok:
  assumes "findUniqueById d i = Some a" and "enhanceOne sv d a w = (Inr (u, d'), w')"
  shows "enhanceArticleById sv d i w =
           (Inr \<lparr>http = 200, msg = Some ArticleEnhanced, data_count = None,
                  data_articles = [u]\<rparr>, d', w')"
  using assms by (simp add: enhanceArticleById_def)

text \<open>
  C3 (amended). In the enhancement handlers, an article whose title search returns no result
  goes on in degraded mode: the step is the rewrite invoked with no reference document,
  followed by the store update. Whenever that rewrite returns, its references are the empty
  list, and the single-article handler and the batch handler store the article marked
  updated, with the returned content and \<open>references = []\<close>.
\<close>

theorem zero_results_degraded_mode:
  assumes "sv_searchGoogle sv (title a) 2 w = (Inr [], w1)"
  shows "enhanceOne (sv\<lparr>sv_rewriteArticle := rewriterIn out\<rparr>) d a w =
           (case rewriteArticle (envOf out w1) (title a) (content a) [] of
              Inl e \<Rightarrow> (Inl e, after out w1)
            | Inr r \<Rightarrow> (update d (aid a) (enhancedData r), after out w1))
       \<and> (\<forall>r. rewriteArticle (envOf out w1) (title a) (content a) [] = Inr r \<longrightarrow>
            rw_references r = [] \<and>
            (findUniqueById d (aid a) = Some a \<longrightarrow>
               (\<exists>u d'. enhanceArticleById (sv\<lparr>sv_rewriteArticle := rewriterIn out\<rparr>) d (aid a) w =
                          (Inr \<lparr>http = 200, msg = Some ArticleEnhanced, data_count = None,
                                 data_articles = [u]\<rparr>, d', after out w1) \<and>
                       findUniqueById d' (aid a) = Some u \<and> isUpdated u \<and>
                       updatedContent u = Some (rw_updatedContent r) \<and> references u = [])) \<and>
            (distinct (map aid (rows d)) \<and>
             (a, w) \<in> set (turns (sv\<lparr>sv_rewriteArticle := rewriterIn out\<rparr>)
                             (findManyNotUpdated d (Some 5)) w0) \<longrightarrow>
               (\<exists>u. findUniqueById
                       (store (enhanceBatch (sv\<lparr>sv_rewriteArticle := rewriterIn out\<rparr>) d w0))
                       (aid a) = Some u \<and>
                    u \<in> set (enhancedArticles
                       (enhanceBatch (sv\<lparr>sv_rewriteArticle := rewriterIn out\<rparr>) d w0)) \<and>
                    isUpdated u \<and> updatedContent u = Some (rw_updatedContent r) \<and>
                    references u = [])))"
proof -
  let ?sv = "sv\<lparr>sv_rewriteArticle := rewriterIn out\<rparr>"
  let ?rw = "rewriteArticle (envOf out w1) (title a) (content a) []"
  have g: "gatherReferences ?sv a w = (Inr [], w1)"
    using assms by (simp add: gatherReferences_def)
  have prep: "prepare ?sv a w = (?rw, after out w1)"
    by (simp add: prepare_def g rewriterIn_def)
  have one: "enhanceOne ?sv d a w =
           (case ?rw of
              Inl e \<Rightarrow> (Inl e, after out w1)
            | Inr r \<Rightarrow> (update d (aid a) (enhancedData r), after out w1))" for d
    by (simp add: enhanceOne_prepare prep split: sum.splits)
  have main: "rw_references r = [] \<and>
            (findUniqueById d (aid a) = Some a \<longrightarrow>
               (\<exists>u d'. enhanceArticleById ?sv d (aid a) w =
                          (Inr \<lparr>http = 200, msg = Some ArticleEnhanced, data_count = None,
                                 data_articles = [u]\<rparr>, d', after out w1) \<and>
                       findUniqueById d' (aid a) = Some u \<and> isUpdated u \<and>
                       updatedContent u = Some (rw_updatedContent r) \<and> references u = [])) \<and>
            (distinct (map aid (rows d)) \<and>
             (a, w) \<in> set (turns ?sv (findManyNotUpdated d (Some 5)) w0) \<longrightarrow>
               (\<exists>u. findUniqueById (store (enhanceBatch ?sv d w0)) (aid a) = Some u \<and>
                    u \<in> set (enhancedArticles (enhanceBatch ?sv d w0)) \<and>
                    isUpdated u \<and> updatedContent u = Some (rw_updatedContent r) \<and>
                    references u = []))"
    if r: "?rw = Inr r" for r
  proof (intro conjI impI)
    show refs: "rw_references r = []"
      using rewriteArticle_returns[OF r] by simp
    show "\<exists>u d'. enhanceArticleById ?sv d (aid a) w =
                          (Inr \<lparr>http = 200, msg = Some ArticleEnhanced, data_count = None,
                                 data_articles = [u]\<rparr>, d', after out w1) \<and>
                       findUniqueById d' (aid a) = Some u \<and> isUpdated u \<and>
                       updatedContent u = Some (rw_updatedContent r) \<and> references u = []"
      if f: "findUniqueById d (aid a) = Some a"
    proof -
      have "aid a \<in> aid ` set (rows d)" using f by (auto dest: findUniqueById_SomeD)
      then obtain u d' where upd: "update d (aid a) (enhancedData r) = Inr (u, d')"
        using update_present by blast
      have "enhanceOne ?sv d a w = (Inr (u, d'), after out w1)" using one r upd by simp
      then have "enhanceArticleById ?sv d (aid a) w =
                   (Inr \<lparr>http = 200, msg = Some ArticleEnhanced, data_count = None,
                          data_articles = [u]\<rparr>, d', after out w1)"
        using f by (rule enhanceArticleById_ok[rotated])
      then show ?thesis
        using update_self[OF upd] update_enhanced[OF upd] refs by auto
    qed
    show "\<exists>u. findUniqueById (store (enhanceBatch ?sv d w0)) (aid a) = Some u \<and>
                    u \<in> set (enhancedArticles (enhanceBatch ?sv d w0)) \<and>
                    isUpdated u \<and> updatedContent u = Some (rw_updatedContent r) \<and>
                    references u = []"
      if h: "distinct (map aid (rows d)) \<and>
             (a, w) \<in> set (turns ?sv (findManyNotUpdated d (Some 5)) w0)"
    proof -
      let ?sel = "findManyNotUpdated d (Some 5)"
      let ?st = "\<lparr>successCount = 0, failureCount = 0, enhancedArticles = [], store = d,
                  world = w0\<rparr>"
      have ids: "aid ` set ?sel \<subseteq> aid ` set (rows (store ?st))"
        using findManyNotUpdated_props(1)[of d "Some 5"] by auto
      have dis: "distinct (map aid ?sel)" using h by (simp add: findManyNotUpdated_props)
      have p: "(a, w) \<in> set (turns ?sv ?sel w0) \<and> fst (prepare ?sv a w) = Inr r"
        using h prep r by simp
      note inv = enhanceLoop_inv[OF ids dis, of ?sv, folded enhanceBatch_def, simplified]
      have "\<exists>u. findUniqueById (store (enhanceBatch ?sv d w0)) (aid a) = Some u \<and>
                 u \<in> set (enhancedArticles (enhanceBatch ?sv d w0)) \<and>
                 isUpdated u \<and> updatedContent u = Some (rw_updatedContent r) \<and>
                 references u = rw_references r"
        using inv p by blast
      then show ?thesis using refs by simp
    qed
  qed
  show ?thesis using one main by blast
qed


theorem zero_results_degraded_mode_witness:
  "sv_searchGoogle sampleServices (title (sampleArticle 1 ''a'' False)) 2 0 = (Inr [], 0)
   \<and> rewriteArticle (envOf (constantOutside (secondaryOnly (limitedThen 0 ''Rewritten''))) 0)
        (title (sampleArticle 1 ''a'' False)) (content (sampleArticle 1 ''a'' False)) []
        = Inr \<lparr>rw_updatedContent = ''Rewritten'', rw_references = []\<rparr>
   \<and> (\<exists>u d'. enhanceArticleById
          (sampleServices\<lparr>sv_rewriteArticle :=
             rewriterIn (constantOutside (secondaryOnly (limitedThen 0 ''Rewritten'')))\<rparr>)
          sampleDb 1 0 =
            (Inr \<lparr>http = 200, msg = Some ArticleEnhanced, data_count = None, data_articles = [u]\<rparr>,
             d', 1) \<and>
          findUniqueById d' 1 = Some u \<and> isUpdated u \<and>
          updatedContent u = Some ''Rewritten'' \<and> references u = [])
   \<and> (\<exists>u. findUniqueById (store (enhanceBatch
          (sampleServices\<lparr>sv_rewriteArticle :=
             rewriterIn (constantOutside (secondaryOnly (limitedThen 0 ''Rewritten'')))\<rparr>)
          sampleDb 0)) 1 = Some u \<and> isUpdated u \<and>
          updatedContent u = Some ''Rewritten'' \<and> references u = [])"
proof -
  let ?a = "sampleArticle 1 ''a'' False"
  let ?out = "constantOutside (secondaryOnly (limitedThen 0 ''Rewritten''))"
  let ?sv = "sampleServices\<lparr>sv_rewriteArticle := rewriterIn ?out\<rparr>"
  have s: "sv_searchGoogle sampleServices (title ?a) 2 0 = (Inr [], 0)"
    by (simp add: sampleServices_def)
  have r: "rewriteArticle (envOf ?out 0) (title ?a) (content ?a) []
        = Inr \<lparr>rw_updatedContent = ''Rewritten'', rw_references = []\<rparr>"
    by (simp add: constantOutside_def rewriteArticle_immediate)
  have i: "aid ?a = 1" by (simp add: sampleArticle_def)
  have n: "after ?out 0 = 1" by (simp add: constantOutside_def)
  have f: "findUniqueById sampleDb (aid ?a) = Some ?a"
    by (simp add: findUniqueById_def sampleDb_def sampleArticle_def)
  have h: "distinct (map aid (rows sampleDb)) \<and>
           (?a, 0) \<in> set (turns ?sv (findManyNotUpdated sampleDb (Some 5)) 0)"
    by (simp add: sample_selected) (simp add: sampleDb_def sampleArticle_def)
  note t = zero_results_degraded_mode[OF s, where out = ?out and d = sampleDb and ?w0.0 = 0,
             THEN conjunct2, rule_format, OF r]
  have 1: "\<exists>u d'. enhanceArticleById ?sv sampleDb (aid ?a) 0 =
            (Inr \<lparr>http = 200, msg = Some ArticleEnhanced, data_count = None, data_articles = [u]\<rparr>,
             d', after ?out 0) \<and>
          findUniqueById d' (aid ?a) = Some u \<and> isUpdated u \<and>
          updatedContent u = Some (rw_updatedContent \<lparr>rw_updatedContent = ''Rewritten'', rw_references = []\<rparr>)
          \<and> references u = []"
    using t f by blast
  have 2: "\<exists>u. findUniqueById (store (enhanceBatch ?sv sampleDb 0)) (aid ?a) = Some u \<and>
          u \<in> set (enhancedArticles (enhanceBatch ?sv sampleDb 0)) \<and> isUpdated u \<and>
          updatedContent u = Some (rw_updatedContent \<lparr>rw_updatedContent = ''Rewritten'', rw_references = []\<rparr>)
          \<and> references u = []"
    using t h by blast
  show ?thesis using s r 1 2 unfolding i n by auto
qed

text \<open>
  The claim as first stated fails on two counts. The standalone script counts an article
  with no search result as a failure and never invokes the rewrite, although the rewrite
  would return. In the batch handler the rewrite is invoked with no reference, but it need
  not succeed: with no backend key it throws, and nothing is stored.
\<close>

theorem zero_results_counterexample:
  "sv_searchGoogle sampleServices (title (sampleArticle 1 ''a'' False)) 2 0 = (Inr [], 0)
   \<and> sv_rewriteArticle sampleServices (title (sampleArticle 1 ''a'' False))
        (content (sampleArticle 1 ''a'' False)) [] 0
        = (Inr \<lparr>rw_updatedContent = ''Enhanced a'', rw_references = []\<rparr>, 1)
   \<and> updateArticlesMain sampleServices sampleDb 0 = (0, 6, sampleDb, 0)
   \<and> enhanceBatch (sampleServices\<lparr>sv_rewriteArticle := rewriterIn (constantOutside noKeys)\<rparr>)
        sampleDb 0
        = \<lparr>successCount = 0, failureCount = 5, enhancedArticles = [], store = sampleDb,
           world = 5\<rparr>"
  by code_simp

section \<open>Search results\<close>

lemma collectResults_filter:
  "collectResults els acc = acc @ map toResult (filter kept els)"
  by (induction els arbitrary: acc)
     (auto simp: kept_def toResult_def split: option.splits)

lemma kept_toResult:
  "kept el \<Longrightarrow> re_link el = Some (sr_url (toResult el)) \<and>
     re_heading el = Some (sr_title (toResult el)) \<and>
     startsWith (sr_url (toResult el)) ''http'' \<and> \<not> isExcluded (sr_url (toResult el))"
  by (auto simp: kept_def toResult_def split: option.splits)

text \<open>
  C6. When the navigation or the wait for the results container throws, \<open>searchGoogle\<close>
  returns the empty list. When the page is loaded and \<open>numResults\<close> is not negative, it
  returns the first \<open>numResults\<close> of the kept elements, in document order: at most
  \<open>numResults\<close> entries, a subsequence of the page's elements, each built from an element
  with an anchor link, a heading and a URL that starts with \<open>http\<close> and contains no
  denylisted domain.
\<close>

theorem searchGoogle_results:
  "(browser (''https://www.google.com/search?q='' @ enc query @ ''&gl=us&hl=en'') = SelectorTimeout e
      \<longrightarrow> searchGoogle enc browser query n = Inr [])
   \<and> (browser (''https://www.google.com/search?q='' @ enc query @ ''&gl=us&hl=en'') = Results els
        \<and> 0 \<le> n \<longrightarrow>
        (\<exists>rs. searchGoogle enc browser query n = Inr rs \<and>
           rs = take (nat n) (map toResult (filter kept els)) \<and>
           length rs \<le> nat n \<and>
           subseq rs (map toResult els) \<and>
           (\<forall>r \<in> set rs. \<exists>el \<in> set els.
              r = toResult el \<and> re_link el = Some (sr_url r) \<and> re_heading el = Some (sr_title r) \<and>
              startsWith (sr_url r) ''http'' \<and> \<not> isExcluded (sr_url r))))"
proof (intro conjI impI)
  let ?url = "''https://www.google.com/search?q='' @ enc query @ ''&gl=us&hl=en''"
  show "searchGoogle enc browser query n = Inr []" if "browser ?url = SelectorTimeout e"
    using that by (simp add: searchGoogle_def)
  show "\<exists>rs. searchGoogle enc browser query n = Inr rs \<and>
           rs = take (nat n) (map toResult (filter kept els)) \<and>
           length rs \<le> nat n \<and>
           subseq rs (map toResult els) \<and>
           (\<forall>r \<in> set rs. \<exists>el \<in> set els.
              r = toResult el \<and> re_link el = Some (sr_url r) \<and> re_heading el = Some (sr_title r) \<and>
              startsWith (sr_url r) ''http'' \<and> \<not> isExcluded (sr_url r))"
    if h: "browser ?url = Results els \<and> 0 \<le> n"
  proof -
    let ?rs = "take (nat n) (map toResult (filter kept els))"
    have eq: "searchGoogle enc browser query n = Inr ?rs"
      using h by (simp add: searchGoogle_def slice0_def collectResults_filter)
    have sub: "subseq ?rs (map toResult els)"
    proof -
      have "subseq ?rs (map toResult (filter kept els))"
        by (metis append_take_drop_id prefix_def prefix_imp_subseq)
      moreover have "subseq (map toResult (filter kept els)) (map toResult els)"
        by (simp add: subseq_map)
      ultimately show ?thesis by (rule subseq_order.order_trans)
    qed
    have each: "\<exists>el \<in> set els.
              r = toResult el \<and> re_link el = Some (sr_url r) \<and> re_heading el = Some (sr_title r) \<and>
              startsWith (sr_url r) ''http'' \<and> \<not> isExcluded (sr_url r)" if "r \<in> set ?rs" for r
    proof -
      from that have "r \<in> set (map toResult (filter kept els))" by (rule in_set_takeD)
      then obtain el where "el \<in> set els" "kept el" "r = toResult el" by auto
      then show ?thesis using kept_toResult by blast
    qed
    show ?thesis using eq sub each by simp
  qed
qed


theorem searchGoogle_results_witness:
  "searchGoogle (\<lambda>q. q) (\<lambda>url. SelectorTimeout (Error ''Waiting for selector failed'')) ''ai chatbots'' 2
      = Inr []
   \<and> (0::int) \<le> 2
   \<and> searchGoogle (\<lambda>q. q) (\<lambda>url. Results samplePage) ''ai chatbots'' 2 =
       Inr [\<lparr>sr_title = ''One'', sr_url = ''https://example.com/one'', sr_snippet = []\<rparr>,
            \<lparr>sr_title = ''Two'', sr_url = ''http://example.org/two'', sr_snippet = ''second''\<rparr>]"
proof -
  have ev: "take (nat 2) (map toResult (filter kept samplePage)) =
       [\<lparr>sr_title = ''One'', sr_url = ''https://example.com/one'', sr_snippet = []\<rparr>,
        \<lparr>sr_title = ''Two'', sr_url = ''http://example.org/two'', sr_snippet = ''second''\<rparr>]"
    by code_simp
  have 1: "searchGoogle (\<lambda>q. q) (\<lambda>url. SelectorTimeout (Error ''Waiting for selector failed''))
             ''ai chatbots'' 2 = Inr []"
    using searchGoogle_results[of "\<lambda>url. SelectorTimeout (Error ''Waiting for selector failed'')"
            "\<lambda>q. q" "''ai chatbots''" "Error ''Waiting for selector failed''" 2]
    by simp
  have 2: "searchGoogle (\<lambda>q. q) (\<lambda>url. Results samplePage) ''ai chatbots'' 2 =
             Inr (take (nat 2) (map toResult (filter kept samplePage)))"
    using searchGoogle_results[of "\<lambda>url. Results samplePage" "\<lambda>q. q" "''ai chatbots''" _ 2
            samplePage]
    by auto
  show ?thesis using 1 2 ev by simp
qed

section \<open>Links selected for scraping\<close>

lemma collectLinks_absolute:
  "\<forall>h \<in> set hrefs. \<exists>u. h = Some u \<and> startsWith u ''http'' \<Longrightarrow> distinct acc \<Longrightarrow>
   \<exists>links. collectLinks resolve blogUrl hrefs acc = Inr links \<and> distinct links \<and>
      set links = set acc \<union> {u. Some u \<in> set hrefs}"
proof (induction hrefs arbitrary: acc)
  case Nil
  then show ?case by simp
next
  case (Cons h hrefs)
  from Cons.prems(1) obtain u where u: "h = Some u" "startsWith u ''http''" by auto
  have ne: "u \<noteq> []" using u(2) by (auto simp: startsWith_def)
  have rest: "\<forall>h \<in> set hrefs. \<exists>u. h = Some u \<and> startsWith u ''http''"
    using Cons.prems(1) by simp
  show ?case
  proof (cases "u \<in> set acc")
    case True
    then show ?thesis
      using Cons.IH[OF rest Cons.prems(2)] u ne by auto
  next
    case False
    then have d: "distinct (acc @ [u])" using Cons.prems(2) by simp
    show ?thesis
      using Cons.IH[OF rest d] u ne False by auto
  qed
qed

text \<open>
  C7. The link collection at index pages that repeat a link. Two anchors with the same
  relative \<open>href\<close> put the resolved URL in the list twice; of six anchors with four
  different targets the five selected hold two targets twice, and leave the first target
  out; an absolute link followed by a relative link to the same page gives the URL twice.
  The selection takes the last five entries: the number is not an input of the function.
\<close>

theorem articlesToScrape_duplicate:
  "articlesToScrape sampleResolve ''https://beyondchats.com/blogs/''
      [Some ''/blogs/post-1'', Some ''/blogs/post-1'']
     = Inr [''https://beyondchats.com/blogs/post-1'', ''https://beyondchats.com/blogs/post-1'']
   \<and> articlesToScrape sampleResolve ''https://beyondchats.com/blogs/''
      [Some ''/blogs/1'', Some ''/blogs/2'', Some ''/blogs/2'', Some ''/blogs/3'',
       Some ''/blogs/3'', Some ''/blogs/4'']
     = Inr [''https://beyondchats.com/blogs/2'', ''https://beyondchats.com/blogs/2'',
            ''https://beyondchats.com/blogs/3'', ''https://beyondchats.com/blogs/3'',
            ''https://beyondchats.com/blogs/4'']
   \<and> articlesToScrape sampleResolve ''https://beyondchats.com/blogs/''
      [Some ''https://beyondchats.com/blogs/post-1'', Some ''/blogs/post-1'']
     = Inr [''https://beyondchats.com/blogs/post-1'', ''https://beyondchats.com/blogs/post-1'']"
  by code_simp

section \<open>Selection of the body text\<close>

lemma selectorLoop_outputs:
  "selectorLoop doc sels cur =
     (case find (\<lambda>c. 200 < length c) (List.map_filter (containerText doc) sels) of
        Some c \<Rightarrow> c
      | None \<Rightarrow> (if List.map_filter (containerText doc) sels = [] then cur
                 else last (List.map_filter (containerText doc) sels)))"
proof (induction sels arbitrary: cur)
  case Nil
  show ?case by (simp add: List.map_filter_simps)
next
  case (Cons sel sels)
  let ?out = "List.map_filter (containerText doc) sels"
  show ?case
  proof (cases "containerText doc sel")
    case None
    have eq: "List.map_filter (containerText doc) (sel # sels) = ?out"
      using None by (simp add: List.map_filter_simps)
    have "selectorLoop doc (sel # sels) cur = selectorLoop doc sels cur"
      using None by simp
    then show ?thesis unfolding eq using Cons.IH[of cur] by simp
  next
    case (Some joined)
    have eq: "List.map_filter (containerText doc) (sel # sels) = joined # ?out"
      using Some by (simp add: List.map_filter_simps)
    show ?thesis
    proof (cases "200 < length joined")
      case True
      then show ?thesis unfolding eq using Some by simp
    next
      case False
      have "selectorLoop doc (sel # sels) cur = selectorLoop doc sels joined"
        using Some False by simp
      also have "\<dots> = (case find (\<lambda>c. 200 < length c) ?out of
                          Some c \<Rightarrow> c
                        | None \<Rightarrow> (if ?out = [] then joined else last ?out))"
        by (rule Cons.IH)
      also have "\<dots> = (case find (\<lambda>c. 200 < length c) (joined # ?out) of
                          Some c \<Rightarrow> c
                        | None \<Rightarrow> (if joined # ?out = [] then cur else last (joined # ?out)))"
        using False by (cases "find (\<lambda>c. 200 < length c) ?out") simp_all
      finally show ?thesis unfolding eq .
    qed
  qed
qed

lemma removeNodes_clean:
  "selectNodes grp ancestors (removeNodes grp ancestors ns) = []"
  by (induction grp ancestors ns rule: removeNodes.induct) auto

lemma removeFrom_clean: "findIn grp (map (removeFrom grp) roots) = []"
proof -
  have "findIn grp [removeFrom grp r] = []" for r
    by (cases r) (simp_all add: findIn_def removeFrom_def removeNodes_clean)
  then show ?thesis
    by (induction roots) (simp_all add: findIn_def)
qed


text \<open>
  C4 (amended). The body text is the output of the first matching container, in the
  priority order of the selectors, whose output is longer than 200 characters. When there
  is none, the content left by the loop is the output of the last matching container; the
  extractor falls back to the paragraphs of the whole document when no container matched or
  that output is shorter than 200 characters, and keeps that output otherwise (so an output
  of exactly 200 characters is kept). A matching container's output joins, with a blank
  line, the trimmed texts longer than 20 characters of the paragraph, heading and list-item
  descendants of its clones, from which every unwanted descendant has been removed. The
  fallback joins the trimmed texts longer than 50 characters of all \<open>p\<close> elements.
\<close>

theorem bodyText_selection:
  "bodyText doc =
     (case find (\<lambda>c. 200 < length c) (containerOutputs doc) of
        Some c \<Rightarrow> c
      | None \<Rightarrow> (if containerOutputs doc = [] \<or> length (last (containerOutputs doc)) < 200
                 then allParagraphs doc
                 else last (containerOutputs doc)))
   \<and> containerOutputs doc = List.map_filter (containerText doc) contentSelectors
   \<and> (\<forall>sel. containerText doc sel =
         (if select [sel] doc = [] then None
          else Some (join blankLine
                 (filter (\<lambda>t. 20 < length t)
                    (map (\<lambda>el. trim (textOf el))
                       (findIn paragraphLike (map (removeFrom unwanted) (select [sel] doc))))))))
   \<and> (\<forall>sel. findIn unwanted (map (removeFrom unwanted) (select [sel] doc)) = [])
   \<and> allParagraphs doc =
        join blankLine
          (filter (\<lambda>t. 50 < length t) (map (\<lambda>el. trim (textOf el)) (select [[Tag ''p'']] doc)))"
proof (intro conjI allI)
  show "bodyText doc =
     (case find (\<lambda>c. 200 < length c) (containerOutputs doc) of
        Some c \<Rightarrow> c
      | None \<Rightarrow> (if containerOutputs doc = [] \<or> length (last (containerOutputs doc)) < 200
                 then allParagraphs doc
                 else last (containerOutputs doc)))"
  proof (cases "find (\<lambda>c. 200 < length c) (containerOutputs doc)")
    case None
    then show ?thesis
      by (auto simp: bodyText_def Let_def selectorLoop_outputs containerOutputs_def)
  next
    case (Some c)
    then have "200 < length c" by (auto simp: find_Some_iff)
    then show ?thesis
      using Some by (auto simp: bodyText_def Let_def selectorLoop_outputs containerOutputs_def)
  qed
  show "containerOutputs doc = List.map_filter (containerText doc) contentSelectors"
    by (simp add: containerOutputs_def)
  show "containerText doc sel =
         (if select [sel] doc = [] then None
          else Some (join blankLine
                 (filter (\<lambda>t. 20 < length t)
                    (map (\<lambda>el. trim (textOf el))
                       (findIn paragraphLike (map (removeFrom unwanted) (select [sel] doc)))))))" for sel
    by (simp add: containerText_def Let_def)
  show "findIn unwanted (map (removeFrom unwanted) (select [sel] doc)) = []" for sel
    by (rule removeFrom_clean)
  show "allParagraphs doc =
        join blankLine
          (filter (\<lambda>t. 50 < length t) (map (\<lambda>el. trim (textOf el)) (select [[Tag ''p'']] doc)))"
    by (simp add: allParagraphs_def)
qed

lemma bodyText_articlePage:
  "containerText articlePage [Tag ''article''] =
     Some (''A heading of the article'' @ blankLine @ replicate 90 CHR ''a'' @ blankLine
           @ replicate 90 CHR ''b'' @ ''!'' @ blankLine @ replicate 25 CHR ''c'')"
  "bodyText articlePage =
     ''A heading of the article'' @ blankLine @ replicate 90 CHR ''a'' @ blankLine
       @ replicate 90 CHR ''b'' @ ''!'' @ blankLine @ replicate 25 CHR ''c''"
  "titleOf articlePage = ''A heading of the article''"
  by code_simp+

text \<open>
  The claim as first stated fails at the boundary: here no container yields more than 200
  characters, yet the body text is the container's 200 characters, not the fallback's
  paragraph.
\<close>

theorem bodyText_exactly200_counterexample:
  "containerOutputs exactly200Page = [replicate 200 CHR ''a'']
   \<and> map length (containerOutputs exactly200Page) = [200]
   \<and> allParagraphs exactly200Page = replicate 60 CHR ''b''
   \<and> bodyText exactly200Page = replicate 200 CHR ''a''"
  by code_simp

section \<open>The minimum content length\<close>

lemma trim_subset: "set (trim s) \<subseteq> set s"
proof -
  have "set (dropWhile isJsSpace (rev (dropWhile isJsSpace s))) \<subseteq> set (rev (dropWhile isJsSpace s))"
    by (rule set_dropWhileD[THEN subsetI])
  also have "\<dots> \<subseteq> set s" by (auto dest: set_dropWhileD)
  finally show ?thesis by (simp add: trim_def)
qed

lemma trim_ends:
  assumes "trim s \<noteq> []"
  shows "\<not> isJsSpace (hd (trim s)) \<and> \<not> isJsSpace (last (trim s))"
proof -
  let ?t = "dropWhile isJsSpace s"
  let ?u = "dropWhile isJsSpace (rev ?t)"
  have u: "?u \<noteq> []" using assms by (simp add: trim_def)
  have t: "?t \<noteq> []"
  proof
    assume "?t = []"
    then have "?u = []" by (metis dropWhile.simps(1) rev.simps(1))
    then show False using u by blast
  qed
  have l: "\<not> isJsSpace (hd ?u)" using u by (rule hd_dropWhile)
  have "last ?u = last (rev ?t)"
    using u by (metis last_appendR takeWhile_dropWhile_id)
  also have "\<dots> = hd ?t" using t by (simp add: last_rev)
  finally have h: "\<not> isJsSpace (last ?u)" using hd_dropWhile[OF t] by simp
  show ?thesis using u l h by (simp add: trim_def hd_rev last_rev)
qed

lemma cleanContent_normal:
  "(\<forall>c \<in> set (cleanContent t). \<not> isControl c) \<and>
   (cleanContent t \<noteq> [] \<longrightarrow>
      \<not> isJsSpace (hd (cleanContent t)) \<and> \<not> isJsSpace (last (cleanContent t)))"
  using trim_subset[of "filter (\<lambda>c. \<not> isControl c) (collapseNewlines (collapseSpaces t))"]
    trim_ends[of "filter (\<lambda>c. \<not> isControl c) (collapseNewlines (collapseSpaces t))"]
  by (auto simp: cleanContent_def)

lemma collapseSpaces_only_space:
  "\<forall>c \<in> set (collapseSpaces s). isJsSpace c \<longrightarrow> c = CHR '' ''"
proof (induction s rule: collapseSpaces.induct)
  case 1
  show ?case by simp
next
  case (2 c cs)
  then show ?case by (cases "isJsSpace c") auto
qed


lemma collapseNewlines_none: "CHR 0x0A \<notin> set s \<Longrightarrow> collapseNewlines s = s"
  by (induction s) auto

lemma cleanContent_spaces:
  "cleanContent t = trim (filter (\<lambda>c. \<not> isControl c) (collapseSpaces t))"
  "\<forall>c \<in> set (cleanContent t). isJsSpace c \<longrightarrow> c = CHR '' ''"
proof -
  have nl: "CHR 0x0A \<notin> set (collapseSpaces t)"
    using collapseSpaces_only_space[of t] by (auto simp: isJsSpace_def)
  show eq: "cleanContent t = trim (filter (\<lambda>c. \<not> isControl c) (collapseSpaces t))"
    by (simp add: cleanContent_def collapseNewlines_none[OF nl])
  show "\<forall>c \<in> set (cleanContent t). isJsSpace c \<longrightarrow> c = CHR '' ''"
    using trim_subset[of "filter (\<lambda>c. \<not> isControl c) (collapseSpaces t)"]
      collapseSpaces_only_space[of t]
    unfolding eq by auto
qed

text \<open>
  C5. For a page that loads, \<open>extractArticleContent\<close> returns \<open>null\<close> exactly when the
  cleaned content is shorter than 100 characters, and otherwise returns the title, the
  cleaned content and the URL. The threshold is applied to the content as cleaned: a
  returned content has at least 100 characters, no control character, no white space other
  than the space character, and neither starts nor ends with white space. The cleaned
  content is the body text after collapsing white space, collapsing runs of newlines,
  removing control characters and trimming.
\<close>

theorem extract_threshold:
  "(browser url = PageLoaded doc \<longrightarrow>
      (extractArticleContent browser url = None
         \<longleftrightarrow> length (cleanContent (bodyText doc)) < 100) \<and>
      (100 \<le> length (cleanContent (bodyText doc)) \<longrightarrow>
         extractArticleContent browser url =
           Some \<lparr>ec_title = titleOf doc, ec_content = cleanContent (bodyText doc), ec_url = url\<rparr>))
   \<and> (\<forall>r. extractArticleContent browser url = Some r \<longrightarrow>
         100 \<le> length (ec_content r) \<and>
         (\<forall>c \<in> set (ec_content r). \<not> isControl c \<and> (isJsSpace c \<longrightarrow> c = CHR '' '')) \<and>
         \<not> isJsSpace (hd (ec_content r)) \<and> \<not> isJsSpace (last (ec_content r)))
   \<and> cleanContent t = trim (filter (\<lambda>c. \<not> isControl c) (collapseNewlines (collapseSpaces t)))"
proof (intro conjI allI impI)
  show "extractArticleContent browser url = None
         \<longleftrightarrow> length (cleanContent (bodyText doc)) < 100" if "browser url = PageLoaded doc"
    using that by (auto simp: extractArticleContent_def Let_def)
  show "extractArticleContent browser url =
           Some \<lparr>ec_title = titleOf doc, ec_content = cleanContent (bodyText doc), ec_url = url\<rparr>"
    if "browser url = PageLoaded doc" "100 \<le> length (cleanContent (bodyText doc))"
    using that by (auto simp: extractArticleContent_def Let_def)
  show "cleanContent t = trim (filter (\<lambda>c. \<not> isControl c) (collapseNewlines (collapseSpaces t)))"
    by (simp add: cleanContent_def)
next
  fix r
  assume r: "extractArticleContent browser url = Some r"
  then obtain doc' where c: "ec_content r = cleanContent (bodyText doc')"
    and l: "100 \<le> length (cleanContent (bodyText doc'))"
    by (auto simp: extractArticleContent_def Let_def split: page.splits if_splits)
  have ne: "cleanContent (bodyText doc') \<noteq> []" using l by auto
  show "100 \<le> length (ec_content r)" using c l by simp
  show "\<forall>c \<in> set (ec_content r). \<not> isControl c \<and> (isJsSpace c \<longrightarrow> c = CHR '' '')"
    using cleanContent_normal[of "bodyText doc'"] cleanContent_spaces(2)[of "bodyText doc'"]
    unfolding c by blast
  show "\<not> isJsSpace (hd (ec_content r))" "\<not> isJsSpace (last (ec_content r))"
    using cleanContent_normal[of "bodyText doc'"] ne unfolding c by blast+
qed

lemma paragraphPage_content:
  "cleanContent (bodyText (paragraphPage 99 0 0)) = replicate 99 CHR ''x''"
  "cleanContent (bodyText (paragraphPage 100 0 0)) = replicate 100 CHR ''x''"
  "bodyText (paragraphPage 60 50 30)
     = replicate 60 CHR ''x'' @ replicate 50 CHR '' '' @ replicate 30 CHR ''y''"
  "cleanContent (bodyText (paragraphPage 60 50 30))
     = replicate 60 CHR ''x'' @ '' '' @ replicate 30 CHR ''y''"
  "titleOf (paragraphPage 100 0 0) = ''Sample''"
  by code_simp+

theorem extract_threshold_witness:
  "extractArticleContent (\<lambda>url. PageLoaded (paragraphPage 99 0 0)) ''https://example.com/a'' = None
   \<and> extractArticleContent (\<lambda>url. PageLoaded (paragraphPage 100 0 0)) ''https://example.com/a''
        = Some \<lparr>ec_title = ''Sample'', ec_content = replicate 100 CHR ''x'',
                ec_url = ''https://example.com/a''\<rparr>
   \<and> length (bodyText (paragraphPage 60 50 30)) = 140
   \<and> extractArticleContent (\<lambda>url. PageLoaded (paragraphPage 60 50 30)) ''https://example.com/a'' = None"
proof -
  have 1: "extractArticleContent (\<lambda>url. PageLoaded (paragraphPage 99 0 0)) ''https://example.com/a'' = None"
    using extract_threshold[where browser = "\<lambda>url. PageLoaded (paragraphPage 99 0 0)"
            and url = "''https://example.com/a''" and doc = "paragraphPage 99 0 0" and t = "[]"]
    by (simp add: paragraphPage_content(1))
  have 2: "extractArticleContent (\<lambda>url. PageLoaded (paragraphPage 100 0 0)) ''https://example.com/a''
        = Some \<lparr>ec_title = ''Sample'', ec_content = replicate 100 CHR ''x'',
                ec_url = ''https://example.com/a''\<rparr>"
    using extract_threshold[where browser = "\<lambda>url. PageLoaded (paragraphPage 100 0 0)"
            and url = "''https://example.com/a''" and doc = "paragraphPage 100 0 0" and t = "[]"]
    by (simp add: paragraphPage_content(2,5))
  have 3: "extractArticleContent (\<lambda>url. PageLoaded (paragraphPage 60 50 30)) ''https://example.com/a'' = None"
    using extract_threshold[where browser = "\<lambda>url. PageLoaded (paragraphPage 60 50 30)"
            and url = "''https://example.com/a''" and doc = "paragraphPage 60 50 30" and t = "[]"]
    by (simp add: paragraphPage_content(4))
  have 4: "length (bodyText (paragraphPage 60 50 30)) = 140"
    by (simp add: paragraphPage_content(3))
  show ?thesis using 1 2 3 4 by simp
qed
section \<open>The handlers over the modelled services\<close>

lemma pipelineServices_timeout:
  "searchBrowserOf out w (''https://www.google.com/search?q='' @ enc (title a) @ ''&gl=us&hl=en'')
     = SelectorTimeout e \<Longrightarrow>
   gatherReferences (pipelineServices enc out) a w = (Inr [], after out w)"
  by (simp add: gatherReferences_def pipelineServices_def searchGoogle_def)

lemma extractMultipleArticles_length:
  "length (extractMultipleArticles browser urls) \<le> length urls"
  by (induction urls) (auto split: option.splits)

lemma extractMultipleArticles_urls:
  "subseq (map ec_url (extractMultipleArticles browser urls)) urls"
proof (induction urls)
  case Nil
  show ?case by simp
next
  case (Cons url urls)
  show ?case
  proof (cases "extractArticleContent browser url")
    case None
    then show ?thesis using Cons.IH by (auto intro: list_emb_Cons)
  next
    case (Some extracted)
    then have "ec_url extracted = url"
      by (auto simp: extractArticleContent_def Let_def split: page.splits if_splits)
    then show ?thesis using Some Cons.IH by simp
  qed
qed

end
